theory Spec2Isabelle
  imports Complex_Main "HOL-Library.AList" "HOL-Library.Log_Nat"
begin

section \<open>JavaScript numbers, strings and dates used by the scheduler\<close>

text \<open>
  A JavaScript number that is an integer or \<open>NaN\<close> is an \<open>int option\<close>, \<open>None\<close> being
  \<open>NaN\<close>. A \<open>Date\<close> is its time value: milliseconds since the epoch, \<open>None\<close> for an
  Invalid Date. Every time value is clipped to the range of ECMAScript's \<open>TimeClip\<close>.
  The local-time accessors of \<open>Date\<close> depend on the time zone of the process; the zone
  is a fixed offset \<open>tz\<close> in milliseconds (no daylight saving), a parameter of every
  accessor.
\<close>

type_synonym jsnum = "int option"
type_synonym date = "int option"

definition msPerSecond :: int where "msPerSecond = 1000"
definition msPerMinute :: int where "msPerMinute = 60000"
definition msPerHour :: int where "msPerHour = 3600000"
definition msPerDay :: int where "msPerDay = 86400000"

definition TimeClip :: "int \<Rightarrow> date" where
  "TimeClip v = (if \<bar>v\<bar> \<le> 8640000000000000 then Some v else None)"

text \<open>\<open>new Date(value)\<close> for a numeric value.\<close>
definition newDate :: "jsnum \<Rightarrow> date" where
  "newDate v = (case v of None \<Rightarrow> None | Some x \<Rightarrow> TimeClip x)"

definition getTime :: "date \<Rightarrow> jsnum" where
  "getTime d = d"

definition jsadd :: "jsnum \<Rightarrow> jsnum \<Rightarrow> jsnum" where
  "jsadd a b = (case a of None \<Rightarrow> None | Some x \<Rightarrow> (case b of None \<Rightarrow> None | Some y \<Rightarrow> Some (x + y)))"

definition jssub :: "jsnum \<Rightarrow> jsnum \<Rightarrow> jsnum" where
  "jssub a b = (case a of None \<Rightarrow> None | Some x \<Rightarrow> (case b of None \<Rightarrow> None | Some y \<Rightarrow> Some (x - y)))"

text \<open>\<open>a >= b\<close> on numbers: false as soon as one side is \<open>NaN\<close>.\<close>
definition jsge :: "jsnum \<Rightarrow> jsnum \<Rightarrow> bool" where
  "jsge a b = (case a of None \<Rightarrow> False | Some x \<Rightarrow> (case b of None \<Rightarrow> False | Some y \<Rightarrow> x \<ge> y))"

definition jsgt :: "jsnum \<Rightarrow> jsnum \<Rightarrow> bool" where
  "jsgt a b = (case a of None \<Rightarrow> False | Some x \<Rightarrow> (case b of None \<Rightarrow> False | Some y \<Rightarrow> x > y))"

text \<open>ECMAScript's abstract operations on a (local) time value.\<close>
definition Day :: "int \<Rightarrow> int" where "Day t = t div msPerDay"
definition HourFromTime :: "int \<Rightarrow> int" where "HourFromTime t = (t div msPerHour) mod 24"
definition MinFromTime :: "int \<Rightarrow> int" where "MinFromTime t = (t div msPerMinute) mod 60"
definition SecFromTime :: "int \<Rightarrow> int" where "SecFromTime t = (t div msPerSecond) mod 60"
definition msFromTime :: "int \<Rightarrow> int" where "msFromTime t = t mod msPerSecond"

definition MakeTime :: "jsnum \<Rightarrow> jsnum \<Rightarrow> jsnum \<Rightarrow> jsnum \<Rightarrow> jsnum" where
  "MakeTime hour minute sec ms =
     (case hour of None \<Rightarrow> None | Some h \<Rightarrow>
      (case minute of None \<Rightarrow> None | Some m \<Rightarrow>
       (case sec of None \<Rightarrow> None | Some s \<Rightarrow>
        (case ms of None \<Rightarrow> None | Some milli \<Rightarrow>
           Some (h * msPerHour + m * msPerMinute + s * msPerSecond + milli)))))"

definition MakeDate :: "int \<Rightarrow> jsnum \<Rightarrow> jsnum" where
  "MakeDate day time = (case time of None \<Rightarrow> None | Some tm \<Rightarrow> Some (day * msPerDay + tm))"

text \<open>\<open>LocalTime\<close> and \<open>UTC\<close> for the fixed offset \<open>tz\<close>; the setters finish with \<open>TimeClip(UTC(newDate))\<close>.\<close>
definition LocalTime :: "int \<Rightarrow> int \<Rightarrow> int" where "LocalTime tz t = t + tz"

definition storeLocal :: "int \<Rightarrow> jsnum \<Rightarrow> date" where
  "storeLocal tz v = (case v of None \<Rightarrow> None | Some x \<Rightarrow> TimeClip (x - tz))"

definition getMinutes :: "int \<Rightarrow> date \<Rightarrow> jsnum" where
  "getMinutes tz d = map_option (\<lambda>t. MinFromTime (LocalTime tz t)) d"

definition getHours :: "int \<Rightarrow> date \<Rightarrow> jsnum" where
  "getHours tz d = map_option (\<lambda>t. HourFromTime (LocalTime tz t)) d"

text \<open>\<open>d.setSeconds(sec, ms)\<close>\<close>
definition setSeconds :: "int \<Rightarrow> date \<Rightarrow> jsnum \<Rightarrow> jsnum \<Rightarrow> date" where
  "setSeconds tz d sec ms =
     (case d of None \<Rightarrow> None | Some u \<Rightarrow>
        (let t = LocalTime tz u in
         storeLocal tz (MakeDate (Day t)
           (MakeTime (Some (HourFromTime t)) (Some (MinFromTime t)) sec ms))))"

text \<open>\<open>d.setMinutes(min)\<close>: seconds and milliseconds are kept.\<close>
definition setMinutes1 :: "int \<Rightarrow> date \<Rightarrow> jsnum \<Rightarrow> date" where
  "setMinutes1 tz d minute =
     (case d of None \<Rightarrow> None | Some u \<Rightarrow>
        (let t = LocalTime tz u in
         storeLocal tz (MakeDate (Day t)
           (MakeTime (Some (HourFromTime t)) minute (Some (SecFromTime t)) (Some (msFromTime t))))))"

text \<open>\<open>d.setMinutes(min, sec, ms)\<close>\<close>
definition setMinutes3 :: "int \<Rightarrow> date \<Rightarrow> jsnum \<Rightarrow> jsnum \<Rightarrow> jsnum \<Rightarrow> date" where
  "setMinutes3 tz d minute sec ms =
     (case d of None \<Rightarrow> None | Some u \<Rightarrow>
        (let t = LocalTime tz u in
         storeLocal tz (MakeDate (Day t) (MakeTime (Some (HourFromTime t)) minute sec ms))))"

text \<open>\<open>d.setHours(hour)\<close>: minutes, seconds and milliseconds are kept.\<close>
definition setHours1 :: "int \<Rightarrow> date \<Rightarrow> jsnum \<Rightarrow> date" where
  "setHours1 tz d hour =
     (case d of None \<Rightarrow> None | Some u \<Rightarrow>
        (let t = LocalTime tz u in
         storeLocal tz (MakeDate (Day t)
           (MakeTime hour (Some (MinFromTime t)) (Some (SecFromTime t)) (Some (msFromTime t))))))"

text \<open>\<open>d.setHours(hour, min, sec, ms)\<close>\<close>
definition setHours4 :: "int \<Rightarrow> date \<Rightarrow> jsnum \<Rightarrow> jsnum \<Rightarrow> jsnum \<Rightarrow> jsnum \<Rightarrow> date" where
  "setHours4 tz d hour minute sec ms =
     (case d of None \<Rightarrow> None | Some u \<Rightarrow>
        (let t = LocalTime tz u in
         storeLocal tz (MakeDate (Day t) (MakeTime hour minute sec ms))))"

text \<open>
  \<open>d.setDate(d.getDate() + k)\<close>. ECMAScript computes
  \<open>MakeDate(MakeDay(YearFromTime(t), MonthFromTime(t), DateFromTime(t) + k), TimeWithinDay(t))\<close>,
  and \<open>MakeDay(y, m, dt)\<close> is the day number of the first of that month plus \<open>dt - 1\<close>:
  the year and month cancel and the local time value moves by \<open>k\<close> whole days.
\<close>
definition setDate_getDate_plus :: "int \<Rightarrow> date \<Rightarrow> int \<Rightarrow> date" where
  "setDate_getDate_plus tz d k =
     (case d of None \<Rightarrow> None | Some u \<Rightarrow>
        (let t = LocalTime tz u in
         storeLocal tz (MakeDate (Day t + k) (Some (t mod msPerDay)))))"

subsection \<open>Strings\<close>

text \<open>\<open>s.split(" ")\<close>: the pieces between single spaces; never the empty array.\<close>
fun split_space :: "string \<Rightarrow> string list" where
  "split_space [] = [[]]"
| "split_space (c # cs) =
     (if c = CHR '' '' then [] # split_space cs
      else (case split_space cs of [] \<Rightarrow> [[c]] | w # ws \<Rightarrow> (c # w) # ws))"

text \<open>Array destructuring: a missing element is \<open>undefined\<close>.\<close>
fun element :: "'a list \<Rightarrow> nat \<Rightarrow> 'a option" where
  "element [] n = None"
| "element (x # xs) 0 = Some x"
| "element (x # xs) (Suc n) = element xs n"

definition startsWith :: "string \<Rightarrow> string \<Rightarrow> bool" where
  "startsWith s p = (take (length p) s = p)"

definition substring_from :: "string \<Rightarrow> nat \<Rightarrow> string" where
  "substring_from s n = drop n s"

text \<open>
  \<open>parseInt(s)\<close> without a radix: leading white space is skipped (the ASCII white space
  characters; a cron field holds no other), then an optional sign, then \<open>0x\<close> selects
  radix 16, then the longest prefix of digits is read; no digit at all gives \<open>NaN\<close>.
\<close>
definition isWhiteSpace :: "char \<Rightarrow> bool" where
  "isWhiteSpace c = (c \<in> set [CHR '' '', CHR 0x09, CHR 0x0A, CHR 0x0B, CHR 0x0C, CHR 0x0D])"

text \<open>The value of a digit in a radix up to 16; letters count in either case.\<close>
definition digitTable :: "(char \<times> nat) list" where
  "digitTable = zip ''0123456789abcdef'' [0..<16] @ zip ''ABCDEF'' [10..<16]"

definition digitValue :: "char \<Rightarrow> nat option" where
  "digitValue c = map_of digitTable c"

definition isRadixDigit :: "nat \<Rightarrow> char \<Rightarrow> bool" where
  "isRadixDigit r c = (case digitValue c of None \<Rightarrow> False | Some v \<Rightarrow> v < r)"

fun digitsValue :: "nat \<Rightarrow> int \<Rightarrow> string \<Rightarrow> int" where
  "digitsValue r acc [] = acc"
| "digitsValue r acc (c # cs) =
     digitsValue r (acc * int r + int (case digitValue c of None \<Rightarrow> 0 | Some v \<Rightarrow> v)) cs"

definition parseDigits :: "nat \<Rightarrow> string \<Rightarrow> jsnum" where
  "parseDigits r s =
     (let z = takeWhile (isRadixDigit r) s
      in if z = [] then None else Some (digitsValue r 0 z))"

definition parseUnsigned :: "string \<Rightarrow> jsnum" where
  "parseUnsigned s =
     (if take 2 s = ''0x'' \<or> take 2 s = ''0X'' then parseDigits 16 (drop 2 s)
      else parseDigits 10 s)"

definition parseInt :: "string \<Rightarrow> jsnum" where
  "parseInt str =
     (let s = dropWhile isWhiteSpace str
      in case s of
           [] \<Rightarrow> None
         | c # cs \<Rightarrow>
             if c = CHR ''-'' then map_option uminus (parseUnsigned cs)
             else if c = CHR ''+'' then parseUnsigned cs
             else parseUnsigned s)"

text \<open>\<open>parseInt(undefined)\<close> reads the string \<open>"undefined"\<close>: \<open>NaN\<close>.\<close>
definition parseIntOpt :: "string option \<Rightarrow> jsnum" where
  "parseIntOpt f = (case f of None \<Rightarrow> None | Some s \<Rightarrow> parseInt s)"


subsection \<open>Numbers that are not integers\<close>

text \<open>Decimal numerals: the digits of a natural number, most significant first.\<close>
definition digitChar :: "nat \<Rightarrow> char" where
  "digitChar n = (''0123456789'' ! (n mod 10))"

fun decimal :: "nat \<Rightarrow> string" where
  "decimal n = (if n < 10 then [digitChar n] else decimal (n div 10) @ [digitChar (n mod 10)])"

declare decimal.simps [simp del]

text \<open>
  A JavaScript number is an IEEE 754 double. A finite double is the rational it denotes
  (the sign of a zero is not kept); the other values are the two infinities and \<open>NaN\<close>.
  \<open>roundToDouble\<close> is the rounding that every arithmetic operation ends with: to the
  nearest double, a tie to the even significand, with 53 bits of precision, the
  subnormal spacing below \<open>2^-1022\<close> and the overflow to an infinity from \<open>2^1024\<close> on.
\<close>
datatype double = Finite rat | PlusInfinity | MinusInfinity | NaN

definition roundHalfEven :: "rat \<Rightarrow> int" where
  "roundHalfEven y =
     (let f = \<lfloor>y\<rfloor>; r = y - of_int f
      in if r < 1 / 2 then f else if 1 / 2 < r then f + 1 else if even f then f else f + 1)"

text \<open>The exponent \<open>e\<close> with \<open>2^e \<le> |x| < 2^(e+1)\<close>, for \<open>x\<close> other than zero, from the bit
  lengths of the numerator and the denominator.\<close>
definition binaryExponent :: "rat \<Rightarrow> int" where
  "binaryExponent x =
     (let e0 = bitlen (fst (quotient_of \<bar>x\<bar>)) - bitlen (snd (quotient_of \<bar>x\<bar>))
      in if 2 powi e0 \<le> \<bar>x\<bar> then e0 else e0 - 1)"

definition roundToDouble :: "rat \<Rightarrow> double" where
  "roundToDouble x =
     (if x = 0 then Finite 0
      else let e = max (binaryExponent x) (- 1022);
               ulp = 2 powi (e - 52);
               y = of_int (roundHalfEven (x / ulp)) * ulp
           in if 2 powi 1024 \<le> y then PlusInfinity
              else if y \<le> - (2 powi 1024) then MinusInfinity
              else Finite y)"

text \<open>The infinity of a sign, \<open>NaN\<close> for no sign; the sign of a value.\<close>
definition infinityOf :: "rat \<Rightarrow> double" where
  "infinityOf s = (if s = 0 then NaN else if 0 < s then PlusInfinity else MinusInfinity)"

definition signOf :: "double \<Rightarrow> rat" where
  "signOf a = (case a of Finite x \<Rightarrow> sgn x | PlusInfinity \<Rightarrow> 1 | MinusInfinity \<Rightarrow> - 1 | NaN \<Rightarrow> 0)"

text \<open>\<open>a * b\<close>, \<open>a + b\<close> and \<open>a / b\<close> on numbers. A zero divisor is the positive zero.\<close>
definition dmul :: "double \<Rightarrow> double \<Rightarrow> double" where
  "dmul a b =
     (if a = NaN \<or> b = NaN then NaN
      else case (a, b) of
             (Finite x, Finite y) \<Rightarrow> roundToDouble (x * y)
           | _ \<Rightarrow> infinityOf (signOf a * signOf b))"

definition dadd :: "double \<Rightarrow> double \<Rightarrow> double" where
  "dadd a b =
     (if a = NaN \<or> b = NaN then NaN
      else case (a, b) of
             (Finite x, Finite y) \<Rightarrow> roundToDouble (x + y)
           | (Finite x, _) \<Rightarrow> b
           | (_, Finite y) \<Rightarrow> a
           | _ \<Rightarrow> if a = b then a else NaN)"

definition ddiv :: "double \<Rightarrow> double \<Rightarrow> double" where
  "ddiv a b =
     (if a = NaN \<or> b = NaN then NaN
      else case (a, b) of
             (Finite x, Finite y) \<Rightarrow> if y = 0 then infinityOf x else roundToDouble (x / y)
           | (Finite x, _) \<Rightarrow> Finite 0
           | (_, Finite y) \<Rightarrow> infinityOf (signOf a * (if y < 0 then - 1 else 1))
           | _ \<Rightarrow> NaN)"

text \<open>A counter of the service is a number that holds an integer; up to \<open>2^53\<close> in
  magnitude the double is that integer.\<close>
definition numberOf :: "int \<Rightarrow> double" where
  "numberOf i = Finite (of_int i)"

text \<open>
  \<open>x.toFixed(2)\<close>: the integer \<open>n\<close> for which \<open>n / 100 - x\<close> is closest to zero, the larger
  one of two, is written with at least one digit before the point and two after it; a
  negative \<open>x\<close> is written as its opposite after a minus sign. From \<open>10^21\<close> on \<open>toFixed\<close>
  answers with the exponent notation of \<open>ToString\<close>; the quotient of two counters times
  100 stays below that, and the digits are written in the same way there.
\<close>
definition fixedDigits2 :: "rat \<Rightarrow> string" where
  "fixedDigits2 x =
     (let n = nat \<lfloor>x * 100 + 1 / 2\<rfloor>
      in decimal (n div 100) @ ''.'' @ [digitChar (n div 10), digitChar n])"

definition toFixed2 :: "double \<Rightarrow> string" where
  "toFixed2 a =
     (case a of
        NaN \<Rightarrow> ''NaN''
      | PlusInfinity \<Rightarrow> ''Infinity''
      | MinusInfinity \<Rightarrow> ''-Infinity''
      | Finite x \<Rightarrow> if x < 0 then ''-'' @ fixedDigits2 (- x) else fixedDigits2 x)"


section \<open>Cron expressions\<close>

text \<open>
  \<open>cronPattern\<close> of \<open>validators/jobValidators.js\<close>, the same regular expression as the
  CHECK constraint \<open>valid_cron_expression\<close> of the \<open>jobs\<close> table: five fields separated
  by single spaces, each \<open>*\<close>, a number of the field's range, or \<open>*/digits\<close>.
\<close>

definition isDigit :: "char \<Rightarrow> bool" where
  "isDigit c = (c \<in> set ''0123456789'')"

text \<open>\<open>\*\/[0-9]+\<close>\<close>
definition stepForm :: "string \<Rightarrow> bool" where
  "stepForm s = (take 2 s = ''*/'' \<and> drop 2 s \<noteq> [] \<and> list_all isDigit (drop 2 s))"

text \<open>A two-character string whose characters lie in the two given classes.\<close>
definition twoChars :: "string \<Rightarrow> string \<Rightarrow> string \<Rightarrow> bool" where
  "twoChars as bs s = (case s of [a, b] \<Rightarrow> a \<in> set as \<and> b \<in> set bs | _ \<Rightarrow> False)"

definition oneChar :: "string \<Rightarrow> string \<Rightarrow> bool" where
  "oneChar as s = (case s of [a] \<Rightarrow> a \<in> set as | _ \<Rightarrow> False)"

text \<open>\<open>(\*|[0-5]?[0-9]|\*\/[0-9]+)\<close>\<close>
definition minuteField :: "string \<Rightarrow> bool" where
  "minuteField s = (s = ''*'' \<or> oneChar ''0123456789'' s \<or> twoChars ''012345'' ''0123456789'' s \<or> stepForm s)"

text \<open>\<open>(\*|[01]?[0-9]|2[0-3]|\*\/[0-9]+)\<close>\<close>
definition hourField :: "string \<Rightarrow> bool" where
  "hourField s = (s = ''*'' \<or> oneChar ''0123456789'' s \<or> twoChars ''01'' ''0123456789'' s
                  \<or> twoChars ''2'' ''0123'' s \<or> stepForm s)"

text \<open>\<open>(\*|[12]?[0-9]|3[01]|\*\/[0-9]+)\<close>\<close>
definition dayField :: "string \<Rightarrow> bool" where
  "dayField s = (s = ''*'' \<or> oneChar ''0123456789'' s \<or> twoChars ''12'' ''0123456789'' s
                 \<or> twoChars ''3'' ''01'' s \<or> stepForm s)"

text \<open>\<open>(\*|[01]?[0-9]|1[0-2]|\*\/[0-9]+)\<close>\<close>
definition monthField :: "string \<Rightarrow> bool" where
  "monthField s = (s = ''*'' \<or> oneChar ''0123456789'' s \<or> twoChars ''01'' ''0123456789'' s
                   \<or> twoChars ''1'' ''012'' s \<or> stepForm s)"

text \<open>\<open>(\*|[0-6]|\*\/[0-9]+)\<close>\<close>
definition dayOfWeekField :: "string \<Rightarrow> bool" where
  "dayOfWeekField s = (s = ''*'' \<or> oneChar ''0123456'' s \<or> stepForm s)"

definition cronPattern :: "string \<Rightarrow> bool" where
  "cronPattern expr =
     (case split_space expr of
        [mi, h, d, mo, dw] \<Rightarrow> minuteField mi \<and> hourField h \<and> dayField d \<and> monthField mo \<and> dayOfWeekField dw
      | _ \<Rightarrow> False)"

section \<open>calculateNextRunTime (models/Job.js)\<close>

text \<open>
  \<open>cron.validate\<close> belongs to the node-cron library and is the parameter \<open>validate\<close>;
  an expression it rejects makes the function throw into its own \<open>catch\<close> block.
  \<open>fromTime\<close> is the base \<open>Date\<close>, \<open>tz\<close> the offset of the process time zone.
\<close>

definition istOffset :: int where
  "istOffset = 19800000"

text \<open>\<open>Math.ceil((currentMinute + 1) / interval) * interval\<close>; a zero interval divides to
  an infinity, and the infinity times zero is \<open>NaN\<close>.\<close>
definition nextIntervalOf :: "jsnum \<Rightarrow> jsnum \<Rightarrow> jsnum" where
  "nextIntervalOf currentMinute interval =
     (case currentMinute of None \<Rightarrow> None | Some c \<Rightarrow>
      (case interval of None \<Rightarrow> None | Some n \<Rightarrow>
         if n = 0 then None else Some (- ((- (c + 1)) div n) * n)))"

definition calculateNextRunTime :: "(string \<Rightarrow> bool) \<Rightarrow> int \<Rightarrow> string \<Rightarrow> date \<Rightarrow> date" where
  "calculateNextRunTime validate tz cronExpression fromTime =
     (if \<not> validate cronExpression
      then newDate (jsadd (getTime fromTime) (Some (60 * 60 * 1000)))
      else
        let istTime = newDate (jsadd (getTime fromTime) (Some istOffset));
            parts = split_space cronExpression;
            minute = element parts 0;
            hour = element parts 1;
            day = element parts 2;
            month = element parts 3;
            nextRun0 = newDate (getTime istTime);
            nextRun =
              (if cronExpression = ''* * * * *'' then
                 let n1 = setSeconds tz nextRun0 (Some 0) (Some 0)
                 in setMinutes1 tz n1 (jsadd (getMinutes tz n1) (Some 1))
               else if (case minute of None \<Rightarrow> False | Some m \<Rightarrow> startsWith m ''*/'') then
                 let interval = parseIntOpt (map_option (\<lambda>m. substring_from m 2) minute);
                     n1 = setSeconds tz nextRun0 (Some 0) (Some 0);
                     currentMinute = getMinutes tz n1;
                     nextInterval = nextIntervalOf currentMinute interval
                 in if jsge nextInterval (Some 60) then
                      let n2 = setHours1 tz n1 (jsadd (getHours tz n1) (Some 1))
                      in setMinutes1 tz n2 (jssub nextInterval (Some 60))
                    else setMinutes1 tz n1 nextInterval
               else if minute \<noteq> Some ''*'' \<and> hour = Some ''*'' then
                 let targetMinute = parseIntOpt minute;
                     n1 = setMinutes3 tz nextRun0 targetMinute (Some 0) (Some 0)
                 in if jsge (getMinutes tz istTime) targetMinute
                    then setHours1 tz n1 (jsadd (getHours tz n1) (Some 1))
                    else n1
               else if minute \<noteq> Some ''*'' \<and> hour \<noteq> Some ''*'' \<and> day = Some ''*'' \<and> month = Some ''*'' then
                 let targetHour = parseIntOpt hour;
                     targetMinute = parseIntOpt minute;
                     n1 = setHours4 tz nextRun0 targetHour targetMinute (Some 0) (Some 0)
                 in if jsge (getTime istTime) (getTime n1)
                    then setDate_getDate_plus tz n1 1
                    else n1
               else
                 let n1 = setHours1 tz nextRun0 (jsadd (getHours tz nextRun0) (Some 1))
                 in setMinutes3 tz n1 (Some 0) (Some 0) (Some 0))
        in newDate (jssub (getTime nextRun) (Some istOffset)))"

text \<open>The \<open>catch\<close> block logs \<open>fallbackTime.toISOString()\<close> before it returns, and
  \<open>toISOString\<close> throws a \<open>RangeError\<close> for an Invalid Date: the call then throws where
  \<open>calculateNextRunTime\<close> above shows the Invalid Date. That is the case of a rejected
  expression with a base that is invalid or within an hour of the end of the range of
  \<open>Date\<close>; the callers in the repository pass the reading of the clock.\<close>
definition calculateNextRunTimeThrows :: "(string \<Rightarrow> bool) \<Rightarrow> string \<Rightarrow> date \<Rightarrow> bool" where
  "calculateNextRunTimeThrows validate cronExpression fromTime =
     (\<not> validate cronExpression
      \<and> newDate (jsadd (getTime fromTime) (Some (60 * 60 * 1000))) = None)"


section \<open>JavaScript values and the Job class (models/Job.js)\<close>

datatype json = JNull | JBool bool | JNum int | JStr string | JArr "json list" | JObj "(string \<times> json) list"

text \<open>
  The values that reach the repository: \<open>undefined\<close>, \<open>null\<close>, booleans, integers,
  strings, dates, JSON objects and arrays (\<open>Json\<close>) and arrays of strings (\<open>Tags\<close>).
\<close>
datatype jsval = Undefined | Null | Bool bool | Num int | Str string | DateV date | Json json | Tags "string list"

text \<open>An object is a finite table of own properties; reading a missing one gives \<open>undefined\<close>.\<close>
type_synonym obj = "string \<rightharpoonup> jsval"

definition getProp :: "obj \<Rightarrow> string \<Rightarrow> jsval" where
  "getProp data k = (case data k of None \<Rightarrow> Undefined | Some v \<Rightarrow> v)"

fun truthy :: "jsval \<Rightarrow> bool" where
  "truthy Undefined = False"
| "truthy Null = False"
| "truthy (Bool b) = b"
| "truthy (Num n) = (n \<noteq> 0)"
| "truthy (Str s) = (s \<noteq> [])"
| "truthy (DateV d) = True"
| "truthy (Json j) = True"
| "truthy (Tags ts) = True"

text \<open>\<open>a || b\<close>\<close>
definition jsor :: "jsval \<Rightarrow> jsval \<Rightarrow> jsval" where
  "jsor a b = (if truthy a then a else b)"

record Job =
  id_job :: jsval
  name :: jsval
  description :: jsval
  cronExpression :: jsval
  isActive :: jsval
  jobType :: jsval
  payload :: jsval
  createdAt :: jsval
  updatedAt :: jsval
  lastRunAt :: jsval
  nextRunAt :: jsval
  totalRuns :: jsval
  successfulRuns :: jsval
  failedRuns :: jsval
  timeoutMs :: jsval
  maxRetries :: jsval
  retryDelayMs :: jsval
  createdBy :: jsval
  tags :: jsval

text \<open>The constructor \<open>new Job(data)\<close>, line by line.\<close>
definition Job_new :: "obj \<Rightarrow> Job" where
  "Job_new data =
     \<lparr> id_job = getProp data ''id'',
       name = getProp data ''name'',
       description = getProp data ''description'',
       cronExpression = jsor (getProp data ''cron_expression'') (getProp data ''cronExpression''),
       isActive = (if getProp data ''is_active'' \<noteq> Undefined then getProp data ''is_active''
                   else getProp data ''isActive''),
       jobType = jsor (jsor (getProp data ''job_type'') (getProp data ''jobType'')) (Str ''scheduled''),
       payload = jsor (getProp data ''payload'') (Json (JObj [])),
       createdAt = jsor (getProp data ''created_at'') (getProp data ''createdAt''),
       updatedAt = jsor (getProp data ''updated_at'') (getProp data ''updatedAt''),
       lastRunAt = jsor (getProp data ''last_run_at'') (getProp data ''lastRunAt''),
       nextRunAt = jsor (getProp data ''next_run_at'') (getProp data ''nextRunAt''),
       totalRuns = jsor (jsor (getProp data ''total_runs'') (getProp data ''totalRuns'')) (Num 0),
       successfulRuns = jsor (jsor (getProp data ''successful_runs'') (getProp data ''successfulRuns'')) (Num 0),
       failedRuns = jsor (jsor (getProp data ''failed_runs'') (getProp data ''failedRuns'')) (Num 0),
       timeoutMs = jsor (jsor (getProp data ''timeout_ms'') (getProp data ''timeoutMs'')) (Num 30000),
       maxRetries = jsor (jsor (getProp data ''max_retries'') (getProp data ''maxRetries'')) (Num 3),
       retryDelayMs = jsor (jsor (getProp data ''retry_delay_ms'') (getProp data ''retryDelayMs'')) (Num 5000),
       createdBy = jsor (getProp data ''created_by'') (getProp data ''createdBy''),
       tags = jsor (getProp data ''tags'') (Tags []) \<rparr>"

text \<open>The own properties of a Job instance, as the spread \<open>{ ...job }\<close> copies them.\<close>
definition spreadJob :: "Job \<Rightarrow> obj" where
  "spreadJob j = map_of
     [ (''id'', id_job j), (''name'', name j), (''description'', description j),
       (''cronExpression'', cronExpression j), (''isActive'', isActive j),
       (''jobType'', jobType j), (''payload'', payload j), (''createdAt'', createdAt j),
       (''updatedAt'', updatedAt j), (''lastRunAt'', lastRunAt j), (''nextRunAt'', nextRunAt j),
       (''totalRuns'', totalRuns j), (''successfulRuns'', successfulRuns j),
       (''failedRuns'', failedRuns j), (''timeoutMs'', timeoutMs j),
       (''maxRetries'', maxRetries j), (''retryDelayMs'', retryDelayMs j),
       (''createdBy'', createdBy j), (''tags'', tags j) ]"

text \<open>\<open>s.trim().length === 0\<close>\<close>
definition trimmedEmpty :: "string \<Rightarrow> bool" where
  "trimmedEmpty s = (dropWhile isWhiteSpace s = [])"

text \<open>A relational comparison of a field with a number; only numbers reach it.\<close>
definition numLess :: "jsval \<Rightarrow> int \<Rightarrow> bool" where
  "numLess v n = (case v of Num x \<Rightarrow> x < n | _ \<Rightarrow> False)"

definition numGreater :: "jsval \<Rightarrow> int \<Rightarrow> bool" where
  "numGreater v n = (case v of Num x \<Rightarrow> x > n | _ \<Rightarrow> False)"

definition stringEmptyAfterTrim :: "jsval \<Rightarrow> bool" where
  "stringEmptyAfterTrim v = (case v of Str s \<Rightarrow> trimmedEmpty s | _ \<Rightarrow> False)"

text \<open>\<open>job.validate()\<close>: the list of error messages; the job is valid when it is empty.\<close>
definition validateJob :: "Job \<Rightarrow> string list" where
  "validateJob j =
     (if \<not> truthy (name j) \<or> stringEmptyAfterTrim (name j) then [''Name is required''] else []) @
     (if \<not> truthy (cronExpression j) \<or> stringEmptyAfterTrim (cronExpression j)
      then [''Cron expression is required''] else []) @
     (if truthy (timeoutMs j) \<and> (numLess (timeoutMs j) 1000 \<or> numGreater (timeoutMs j) 300000)
      then [''Timeout must be between 1000ms and 300000ms''] else []) @
     (if truthy (maxRetries j) \<and> (numLess (maxRetries j) 0 \<or> numGreater (maxRetries j) 10)
      then [''Max retries must be between 0 and 10''] else [])"

text \<open>\<open>job.toDatabase()\<close>; the payload is serialised by \<open>JSON.stringify\<close> and parsed again
  by the store, so the value itself is kept here.\<close>
record dbData =
  d_id :: jsval
  d_name :: jsval
  d_description :: jsval
  d_cron_expression :: jsval
  d_is_active :: jsval
  d_job_type :: jsval
  d_payload :: jsval
  d_timeout_ms :: jsval
  d_max_retries :: jsval
  d_retry_delay_ms :: jsval
  d_created_by :: jsval
  d_tags :: jsval

definition toDatabase :: "Job \<Rightarrow> dbData" where
  "toDatabase j =
     \<lparr> d_id = id_job j, d_name = name j, d_description = description j,
       d_cron_expression = cronExpression j, d_is_active = isActive j,
       d_job_type = jobType j, d_payload = payload j, d_timeout_ms = timeoutMs j,
       d_max_retries = maxRetries j, d_retry_delay_ms = retryDelayMs j,
       d_created_by = createdBy j, d_tags = tags j \<rparr>"

section \<open>The store (database/schema.sql)\<close>

text \<open>A row of table \<open>jobs\<close>; a nullable column is an option, \<open>None\<close> being NULL.
  Timestamps are milliseconds since the epoch.\<close>
record job_row =
  id_col :: string
  name_col :: string
  description_col :: "string option"
  cron_expression :: string
  is_active :: "bool option"
  job_type :: string
  payload_col :: "json option"
  created_at :: "int option"
  updated_at :: "int option"
  last_run_at :: "int option"
  next_run_at :: "int option"
  total_runs :: "int option"
  successful_runs :: "int option"
  failed_runs :: "int option"
  timeout_ms :: "int option"
  max_retries :: "int option"
  retry_delay_ms :: "int option"
  created_by :: "string option"
  tags_col :: "string list option"

text \<open>A row of table \<open>job_executions\<close>.\<close>
record execution_row =
  exec_id :: string
  job_id :: string
  status :: string
  started_at :: "int option"
  completed_at :: "int option"
  duration_ms :: "int option"
  error_message :: "string option"
  retry_count :: "int option"
  output_col :: "json option"

record database =
  jobs :: "job_row list"
  job_executions :: "execution_row list"

datatype error =
    ValidationFailed "string list"
  | DbError string

text \<open>How the driver hands a column to JavaScript.\<close>
definition ofText :: "string option \<Rightarrow> jsval" where
  "ofText c = (case c of None \<Rightarrow> Null | Some s \<Rightarrow> Str s)"

definition ofInteger :: "int option \<Rightarrow> jsval" where
  "ofInteger c = (case c of None \<Rightarrow> Null | Some n \<Rightarrow> Num n)"

definition ofBoolean :: "bool option \<Rightarrow> jsval" where
  "ofBoolean c = (case c of None \<Rightarrow> Null | Some b \<Rightarrow> Bool b)"

definition ofTimestamp :: "int option \<Rightarrow> jsval" where
  "ofTimestamp c = (case c of None \<Rightarrow> Null | Some t \<Rightarrow> DateV (Some t))"

definition ofJsonb :: "json option \<Rightarrow> jsval" where
  "ofJsonb c =
     (case c of None \<Rightarrow> Null
      | Some JNull \<Rightarrow> Null
      | Some (JBool b) \<Rightarrow> Bool b
      | Some (JNum n) \<Rightarrow> Num n
      | Some (JStr s) \<Rightarrow> Str s
      | Some j \<Rightarrow> Json j)"

definition ofTextArray :: "string list option \<Rightarrow> jsval" where
  "ofTextArray c = (case c of None \<Rightarrow> Null | Some ts \<Rightarrow> Tags ts)"

definition rowObject :: "job_row \<Rightarrow> obj" where
  "rowObject r = map_of
     [ (''id'', Str (id_col r)), (''name'', Str (name_col r)),
       (''description'', ofText (description_col r)),
       (''cron_expression'', Str (cron_expression r)),
       (''is_active'', ofBoolean (is_active r)), (''job_type'', Str (job_type r)),
       (''payload'', ofJsonb (payload_col r)),
       (''created_at'', ofTimestamp (created_at r)), (''updated_at'', ofTimestamp (updated_at r)),
       (''last_run_at'', ofTimestamp (last_run_at r)), (''next_run_at'', ofTimestamp (next_run_at r)),
       (''total_runs'', ofInteger (total_runs r)),
       (''successful_runs'', ofInteger (successful_runs r)),
       (''failed_runs'', ofInteger (failed_runs r)),
       (''timeout_ms'', ofInteger (timeout_ms r)), (''max_retries'', ofInteger (max_retries r)),
       (''retry_delay_ms'', ofInteger (retry_delay_ms r)),
       (''created_by'', ofText (created_by r)), (''tags'', ofTextArray (tags_col r)) ]"

text \<open>How a query parameter becomes a column value; \<open>undefined\<close> and \<open>null\<close> are NULL.
  A value of another type than the column's is refused by the store.\<close>
definition toText :: "jsval \<Rightarrow> error + string option" where
  "toText v = (case v of Undefined \<Rightarrow> Inr None | Null \<Rightarrow> Inr None | Str s \<Rightarrow> Inr (Some s)
               | _ \<Rightarrow> Inl (DbError ''invalid input for type text''))"

definition int4_min :: int where "int4_min = - 2147483648"
definition int4_max :: int where "int4_max = 2147483647"

definition toInteger :: "jsval \<Rightarrow> error + int option" where
  "toInteger v = (case v of Undefined \<Rightarrow> Inr None | Null \<Rightarrow> Inr None
                  | Num n \<Rightarrow> if int4_min \<le> n \<and> n \<le> int4_max then Inr (Some n)
                            else Inl (DbError ''integer out of range'')
                  | _ \<Rightarrow> Inl (DbError ''invalid input syntax for type integer''))"

definition toBoolean :: "jsval \<Rightarrow> error + bool option" where
  "toBoolean v = (case v of Undefined \<Rightarrow> Inr None | Null \<Rightarrow> Inr None | Bool b \<Rightarrow> Inr (Some b)
                  | _ \<Rightarrow> Inl (DbError ''invalid input syntax for type boolean''))"

definition toTimestamp :: "jsval \<Rightarrow> error + int option" where
  "toTimestamp v = (case v of Undefined \<Rightarrow> Inr None | Null \<Rightarrow> Inr None
                    | DateV (Some t) \<Rightarrow> Inr (Some t)
                    | _ \<Rightarrow> Inl (DbError ''invalid input syntax for type timestamp with time zone''))"

text \<open>The text of \<open>JSON.stringify(payload)\<close> read back as \<open>jsonb\<close>.\<close>
definition toJsonb :: "jsval \<Rightarrow> error + json option" where
  "toJsonb v = (case v of Json j \<Rightarrow> Inr (Some j) | Null \<Rightarrow> Inr (Some JNull)
                | Bool b \<Rightarrow> Inr (Some (JBool b)) | Num n \<Rightarrow> Inr (Some (JNum n))
                | Str s \<Rightarrow> Inr (Some (JStr s))
                | Tags ts \<Rightarrow> Inr (Some (JArr (map JStr ts)))
                | _ \<Rightarrow> Inl (DbError ''invalid input syntax for type json''))"

definition toTextArray :: "jsval \<Rightarrow> error + string list option" where
  "toTextArray v = (case v of Undefined \<Rightarrow> Inr None | Null \<Rightarrow> Inr None | Tags ts \<Rightarrow> Inr (Some ts)
                    | _ \<Rightarrow> Inl (DbError ''malformed array literal''))"


definition toTextNotNull :: "jsval \<Rightarrow> error + string" where
  "toTextNotNull v = (case v of Str s \<Rightarrow> Inr s
                      | Undefined \<Rightarrow> Inl (DbError ''null value violates not-null constraint'')
                      | Null \<Rightarrow> Inl (DbError ''null value violates not-null constraint'')
                      | _ \<Rightarrow> Inl (DbError ''invalid input for type text''))"

text \<open>Sequencing of steps that may fail: the first error ends the statement.\<close>
definition bindE :: "error + 'a \<Rightarrow> ('a \<Rightarrow> error + 'b) \<Rightarrow> error + 'b" where
  "bindE m f = (case m of Inl e \<Rightarrow> Inl e | Inr x \<Rightarrow> f x)"

text \<open>SQL \<open>column + n\<close> on an \<open>INTEGER\<close> column: NULL stays NULL, and a result outside the
  32-bit range is the error \<open>integer out of range\<close>.\<close>
definition sqlPlus :: "int option \<Rightarrow> int \<Rightarrow> error + int option" where
  "sqlPlus c n = (case c of None \<Rightarrow> Inr None
                  | Some x \<Rightarrow> if int4_min \<le> x + n \<and> x + n \<le> int4_max then Inr (Some (x + n))
                             else Inl (DbError ''integer out of range''))"

text \<open>A CHECK constraint rejects a row only when its condition is false; on NULL it is
  unknown and the row passes.\<close>
definition checkGe :: "int option \<Rightarrow> int \<Rightarrow> bool" where
  "checkGe c n = (case c of None \<Rightarrow> True | Some x \<Rightarrow> x \<ge> n)"

definition checkGt :: "int option \<Rightarrow> int \<Rightarrow> bool" where
  "checkGt c n = (case c of None \<Rightarrow> True | Some x \<Rightarrow> x > n)"

definition varcharFits :: "nat \<Rightarrow> string option \<Rightarrow> bool" where
  "varcharFits n c = (case c of None \<Rightarrow> True | Some s \<Rightarrow> length s \<le> n)"

text \<open>The column types and the four CHECK constraints of table \<open>jobs\<close>.\<close>
definition jobsConstraints :: "job_row \<Rightarrow> error + job_row" where
  "jobsConstraints r =
     (if \<not> (length (name_col r) \<le> 255 \<and> length (cron_expression r) \<le> 100
             \<and> length (job_type r) \<le> 50 \<and> varcharFits 255 (created_by r))
      then Inl (DbError ''value too long for type character varying'')
      else if \<not> cronPattern (cron_expression r)
      then Inl (DbError ''violates check constraint valid_cron_expression'')
      else if \<not> (checkGe (total_runs r) 0 \<and> checkGe (successful_runs r) 0 \<and> checkGe (failed_runs r) 0)
      then Inl (DbError ''violates check constraint positive_runs'')
      else if \<not> checkGt (timeout_ms r) 0
      then Inl (DbError ''violates check constraint valid_timeout'')
      else if \<not> checkGe (max_retries r) 0
      then Inl (DbError ''violates check constraint valid_retries'')
      else Inr r)"

text \<open>
  The date arithmetic of PostgreSQL that \<open>calculate_next_run\<close> uses depends on the time
  zone of the session and on the calendar; \<open>DATE_TRUNC\<close> and the addition of an interval
  are parameters.
\<close>
record pg_time =
  date_trunc :: "string \<Rightarrow> int \<Rightarrow> int"
  plus_interval :: "int \<Rightarrow> string \<Rightarrow> int"

text \<open>The SQL function \<open>calculate_next_run(cron_expr, from_time)\<close>.\<close>
definition calculate_next_run :: "pg_time \<Rightarrow> string \<Rightarrow> int \<Rightarrow> int" where
  "calculate_next_run pg cron_expr from_time =
     (if cron_expr = ''0 * * * *'' then plus_interval pg (date_trunc pg ''hour'' from_time) ''1 hour''
      else if cron_expr = ''0 0 * * *'' then plus_interval pg (date_trunc pg ''day'' from_time) ''1 day''
      else if cron_expr = ''0 0 * * 1'' then plus_interval pg (date_trunc pg ''week'' from_time) ''1 week''
      else if cron_expr = ''0 0 1 * *'' then plus_interval pg (date_trunc pg ''month'' from_time) ''1 month''
      else plus_interval pg from_time ''1 hour'')"

text \<open>The row trigger \<open>jobs_update_next_run\<close>, on the UPDATE of a row: \<open>old\<close> is the stored
  row, \<open>new\<close> the row the statement built, \<open>now\<close> the value of \<open>NOW()\<close>.\<close>
definition update_next_run_trigger :: "pg_time \<Rightarrow> int \<Rightarrow> job_row \<Rightarrow> job_row \<Rightarrow> job_row" where
  "update_next_run_trigger pg now old new =
     (if cron_expression old \<noteq> cron_expression new
      then new\<lparr> next_run_at := Some (calculate_next_run pg (cron_expression new) now),
                updated_at := Some now \<rparr>
      else new)"

text \<open>\<open>UPDATE jobs SET ... WHERE id = $1 RETURNING *\<close>: \<open>assign\<close> builds the new row from the
  stored one; the trigger runs before the constraints are checked. The result is the new
  table and the returned rows.\<close>
fun update_jobs_where_id ::
  "pg_time \<Rightarrow> int \<Rightarrow> (job_row \<Rightarrow> error + job_row) \<Rightarrow> string \<Rightarrow> job_row list
     \<Rightarrow> error + (job_row list \<times> job_row list)" where
  "update_jobs_where_id pg now assign i [] = Inr ([], [])"
| "update_jobs_where_id pg now assign i (r # rs) =
     (if id_col r = i then
        bindE (assign r) (\<lambda>new.
        bindE (jobsConstraints (update_next_run_trigger pg now r new)) (\<lambda>r'.
        bindE (update_jobs_where_id pg now assign i rs) (\<lambda>(tbl, ret).
          Inr (r' # tbl, r' # ret))))
      else
        bindE (update_jobs_where_id pg now assign i rs) (\<lambda>(tbl, ret). Inr (r # tbl, ret)))"

section \<open>JobRepository (models/Job.js)\<close>

text \<open>\<open>new Job(result.rows[0])\<close>; without a row the constructor's default \<open>{}\<close> applies.\<close>
definition firstJob :: "job_row list \<Rightarrow> Job" where
  "firstJob rows = (case rows of [] \<Rightarrow> Job_new Map.empty | r # rs \<Rightarrow> Job_new (rowObject r))"

definition findById :: "database \<Rightarrow> string \<Rightarrow> Job option" where
  "findById db i =
     (let rows = filter (\<lambda>r. id_col r = i) (jobs db)
      in if length rows > 0 then Some (firstJob rows) else None)"

text \<open>The body of a PUT request after validation against \<open>jobUpdateSchema\<close>: unknown keys
  are stripped, every key is optional.\<close>
record patch =
  p_name :: "string option"
  p_description :: "string option"
  p_cronExpression :: "string option"
  p_isActive :: "bool option"
  p_jobType :: "string option"
  p_payload :: "json option"
  p_timeoutMs :: "int option"
  p_maxRetries :: "int option"
  p_retryDelayMs :: "int option"
  p_createdBy :: "string option"
  p_tags :: "string list option"

definition field :: "string \<Rightarrow> 'a option \<Rightarrow> ('a \<Rightarrow> jsval) \<Rightarrow> (string \<times> jsval) list" where
  "field k v f = (case v of None \<Rightarrow> [] | Some x \<Rightarrow> [(k, f x)])"

definition patchObject :: "patch \<Rightarrow> obj" where
  "patchObject p = map_of
     (field ''name'' (p_name p) Str @ field ''description'' (p_description p) Str @
      field ''cronExpression'' (p_cronExpression p) Str @ field ''isActive'' (p_isActive p) Bool @
      field ''jobType'' (p_jobType p) Str @ field ''payload'' (p_payload p) Json @
      field ''timeoutMs'' (p_timeoutMs p) Num @ field ''maxRetries'' (p_maxRetries p) Num @
      field ''retryDelayMs'' (p_retryDelayMs p) Num @ field ''createdBy'' (p_createdBy p) Str @
      field ''tags'' (p_tags p) Tags)"

text \<open>\<open>calculateNextRunTime(job.cronExpression)\<close> with the default base \<open>new Date()\<close>; a value
  that is not a string is refused by the validator.\<close>
definition nextRunOf :: "(string \<Rightarrow> bool) \<Rightarrow> int \<Rightarrow> jsval \<Rightarrow> int \<Rightarrow> date" where
  "nextRunOf validate tz expr now =
     (case expr of Str s \<Rightarrow> calculateNextRunTime validate tz s (Some now)
      | _ \<Rightarrow> newDate (jsadd (Some now) (Some (60 * 60 * 1000))))"

text \<open>The SET list of the UPDATE statement of \<open>update\<close>.\<close>
definition updateAssign :: "dbData \<Rightarrow> jsval \<Rightarrow> int \<Rightarrow> job_row \<Rightarrow> error + job_row" where
  "updateAssign d nextRunAtParam now r =
     bindE (toTextNotNull (d_name d)) (\<lambda>v2.
     bindE (toText (d_description d)) (\<lambda>v3.
     bindE (toTextNotNull (d_cron_expression d)) (\<lambda>v4.
     bindE (toBoolean (d_is_active d)) (\<lambda>v5.
     bindE (toTextNotNull (d_job_type d)) (\<lambda>v6.
     bindE (toJsonb (d_payload d)) (\<lambda>v7.
     bindE (toInteger (d_timeout_ms d)) (\<lambda>v8.
     bindE (toInteger (d_max_retries d)) (\<lambda>v9.
     bindE (toInteger (d_retry_delay_ms d)) (\<lambda>v10.
     bindE (toText (d_created_by d)) (\<lambda>v11.
     bindE (toTextArray (d_tags d)) (\<lambda>v12.
     bindE (toTimestamp nextRunAtParam) (\<lambda>v13.
       Inr (r\<lparr> name_col := v2, description_col := v3, cron_expression := v4, is_active := v5,
                job_type := v6, payload_col := v7, timeout_ms := v8, max_retries := v9,
                retry_delay_ms := v10, created_by := v11, tags_col := v12, next_run_at := v13,
                updated_at := Some now \<rparr>)))))))))))))"

text \<open>\<open>update(id, updateData)\<close>. \<open>jsNow\<close> is the clock of the process (\<open>new Date()\<close>), \<open>dbNow\<close>
  that of the store (\<open>NOW()\<close>). The result is the error thrown, or the new state of the
  store with the returned Job (\<open>None\<close> for \<open>null\<close>).\<close>
definition update ::
  "(string \<Rightarrow> bool) \<Rightarrow> int \<Rightarrow> pg_time \<Rightarrow> int \<Rightarrow> int \<Rightarrow> database \<Rightarrow> string \<Rightarrow> obj
     \<Rightarrow> error + (database \<times> Job option)" where
  "update validate tz pg jsNow dbNow db i updateData =
     (case findById db i of
        None \<Rightarrow> Inr (db, None)
      | Some existingJob \<Rightarrow>
          let updatedJob = Job_new (spreadJob existingJob ++ updateData);
              errors = validateJob updatedJob
          in if errors \<noteq> [] then Inl (ValidationFailed errors)
             else
               let d = toDatabase updatedJob;
                   nextRunAt0 = nextRunAt existingJob;
                   nextRunAt1 =
                     (if cronExpression existingJob \<noteq> cronExpression updatedJob
                      then DateV (nextRunOf validate tz (cronExpression updatedJob) jsNow)
                      else nextRunAt0)
               in bindE (update_jobs_where_id pg dbNow (updateAssign d nextRunAt1 dbNow) i (jobs db))
                    (\<lambda>(tbl, rows). Inr (db\<lparr> jobs := tbl \<rparr>, Some (firstJob rows))))"

text \<open>The SET list of the UPDATE statement of \<open>updateJobStats\<close>.\<close>
definition statsAssign :: "jsval \<Rightarrow> int \<Rightarrow> int \<Rightarrow> int \<Rightarrow> job_row \<Rightarrow> error + job_row" where
  "statsAssign lastRun inc_ok inc_failed now r =
     bindE (toTimestamp lastRun) (\<lambda>v2.
     bindE (sqlPlus (total_runs r) 1) (\<lambda>total.
     bindE (sqlPlus (successful_runs r) inc_ok) (\<lambda>ok.
     bindE (sqlPlus (failed_runs r) inc_failed) (\<lambda>failed.
       Inr (r\<lparr> last_run_at := v2, total_runs := total, successful_runs := ok,
                failed_runs := failed, updated_at := Some now \<rparr>)))))"

text \<open>\<open>updateJobStats(id, stats)\<close> with \<open>stats.success\<close> the flag \<open>success\<close>.\<close>
definition updateJobStats ::
  "pg_time \<Rightarrow> int \<Rightarrow> int \<Rightarrow> database \<Rightarrow> string \<Rightarrow> bool \<Rightarrow> error + (database \<times> Job option)" where
  "updateJobStats pg jsNow dbNow db i success =
     bindE (update_jobs_where_id pg dbNow
              (statsAssign (DateV (Some jsNow)) (if success then 1 else 0) (if success then 0 else 1) dbNow)
              i (jobs db))
       (\<lambda>(tbl, rows).
          Inr (db\<lparr> jobs := tbl \<rparr>, if length rows > 0 then Some (firstJob rows) else None))"

text \<open>\<open>ORDER BY next_run_at ASC\<close>: NULL sorts last.\<close>
definition orderByNextRunAsc :: "job_row list \<Rightarrow> job_row list" where
  "orderByNextRunAsc rows =
     sort_key (\<lambda>r. case next_run_at r of None \<Rightarrow> 0 | Some t \<Rightarrow> t) (filter (\<lambda>r. next_run_at r \<noteq> None) rows)
     @ filter (\<lambda>r. next_run_at r = None) rows"

definition activeAndDue :: "int \<Rightarrow> job_row \<Rightarrow> bool" where
  "activeAndDue now r =
     (is_active r = Some True \<and> (case next_run_at r of None \<Rightarrow> True | Some t \<Rightarrow> t \<le> now))"

definition getActiveJobs :: "database \<Rightarrow> int \<Rightarrow> Job list" where
  "getActiveJobs db dbNow =
     map (\<lambda>r. Job_new (rowObject r)) (orderByNextRunAsc (filter (activeAndDue dbNow) (jobs db)))"

text \<open>The options of \<open>findAll\<close>; \<open>ILIKE\<close> and the array overlap \<open>&&\<close> are operators of the
  store, \<open>ilike\<close> a parameter.\<close>
record findAllOptions =
  o_page :: int
  o_limit :: int
  o_isActive :: "bool option"
  o_jobType :: "string option"
  o_tags :: "string list option"
  o_search :: "string option"

definition defaultOptions :: findAllOptions where
  "defaultOptions = \<lparr> o_page = 1, o_limit = 50, o_isActive = None, o_jobType = None,
                       o_tags = None, o_search = None \<rparr>"

definition whereClause :: "(string \<Rightarrow> string \<Rightarrow> bool) \<Rightarrow> findAllOptions \<Rightarrow> job_row \<Rightarrow> bool" where
  "whereClause ilike opts r =
     ((case o_isActive opts of None \<Rightarrow> True | Some b \<Rightarrow> is_active r = Some b) \<and>
      (case o_jobType opts of None \<Rightarrow> True | Some t \<Rightarrow> if t = [] then True else job_type r = t) \<and>
      (case o_tags opts of None \<Rightarrow> True
       | Some ts \<Rightarrow> if length ts > 0
                   then (case tags_col r of None \<Rightarrow> False | Some rs \<Rightarrow> list_ex (\<lambda>t. t \<in> set rs) ts)
                   else True) \<and>
      (case o_search opts of None \<Rightarrow> True
       | Some q \<Rightarrow> if q = [] then True else ilike (name_col r) (''%'' @ q @ ''%'')))"

text \<open>\<open>ORDER BY created_at DESC\<close>: NULL sorts first.\<close>
definition orderByCreatedDesc :: "job_row list \<Rightarrow> job_row list" where
  "orderByCreatedDesc rows =
     filter (\<lambda>r. created_at r = None) rows
     @ sort_key (\<lambda>r. case created_at r of None \<Rightarrow> 0 | Some t \<Rightarrow> - t) (filter (\<lambda>r. created_at r \<noteq> None) rows)"

record findAllResult =
  r_jobs :: "Job list"
  r_total :: int
  r_page :: int
  r_limit :: int
  r_totalPages :: jsnum

text \<open>\<open>findAll(options)\<close>. A negative OFFSET or LIMIT is refused by the store, the
  OFFSET first.
  \<open>Math.ceil(total / limit)\<close> is not a finite number for a zero limit (\<open>None\<close>).\<close>
definition findAll :: "(string \<Rightarrow> string \<Rightarrow> bool) \<Rightarrow> database \<Rightarrow> findAllOptions \<Rightarrow> error + findAllResult" where
  "findAll ilike db opts =
     (let offset = (o_page opts - 1) * o_limit opts;
          matching = filter (whereClause ilike opts) (jobs db)
      in if offset < 0 then Inl (DbError ''OFFSET must not be negative'')
         else if o_limit opts < 0 then Inl (DbError ''LIMIT must not be negative'')
         else Inr \<lparr> r_jobs = map (\<lambda>r. Job_new (rowObject r))
                               (take (nat (o_limit opts)) (drop (nat offset) (orderByCreatedDesc matching))),
                    r_total = int (length matching),
                    r_page = o_page opts,
                    r_limit = o_limit opts,
                    r_totalPages = (if o_limit opts = 0 then None
                                    else Some (- ((- int (length matching)) div o_limit opts))) \<rparr>)"


section \<open>SchedulerService (services/schedulerService.js)\<close>

text \<open>A JavaScript \<open>Map\<close> keeps its entries in insertion order: an association list with
  \<open>set\<close> replacing in place or appending, and \<open>delete\<close> removing the entry.\<close>
definition mapHas :: "('k \<times> 'v) list \<Rightarrow> 'k \<Rightarrow> bool" where
  "mapHas m k = (map_of m k \<noteq> None)"

definition mapSet :: "('k \<times> 'v) list \<Rightarrow> 'k \<Rightarrow> 'v \<Rightarrow> ('k \<times> 'v) list" where
  "mapSet m k v = AList.update k v m"

definition mapDelete :: "('k \<times> 'v) list \<Rightarrow> 'k \<Rightarrow> ('k \<times> 'v) list" where
  "mapDelete m k = AList.delete k m"

definition mapSize :: "('k \<times> 'v) list \<Rightarrow> int" where
  "mapSize m = int (length m)"

definition mapKeys :: "('k \<times> 'v) list \<Rightarrow> 'k list" where
  "mapKeys m = map fst m"

text \<open>The record kept in \<open>executionQueue\<close> while a job runs; \<open>ctx_id\<close> is filled in once the
  execution row exists.\<close>
record execution =
  jobId :: jsval
  startTime :: int
  ctx_status :: string
  ctx_id :: "string option"

text \<open>The two expressions of the scheduler that leave the integers are kept apart from
  the rest of the service: the running mean
  \<open>(averageExecutionTime * (totalExecutions - 1) + duration) / totalExecutions\<close> and the
  rendering \<open>((successfulExecutions / totalExecutions) * 100).toFixed(2)\<close>. The service
  computes them in double arithmetic: \<open>doubleOps\<close>.\<close>
record 'f floatops =
  fzero :: 'f
  running_mean :: "'f \<Rightarrow> int \<Rightarrow> int \<Rightarrow> 'f"
  percent_fixed2 :: "int \<Rightarrow> int \<Rightarrow> string"

definition doubleOps :: "double floatops" where
  "doubleOps =
     \<lparr> fzero = Finite 0,
       running_mean = (\<lambda>avg total duration.
          ddiv (dadd (dmul avg (numberOf (total - 1))) (numberOf duration)) (numberOf total)),
       percent_fixed2 = (\<lambda>ok total.
          toFixed2 (dmul (ddiv (numberOf ok) (numberOf total)) (Finite 100))) \<rparr>"

record 'f stats =
  totalExecutions :: int
  successfulExecutions :: int
  failedExecutions :: int
  averageExecutionTime :: 'f

text \<open>The state of the service. A cron task of \<open>activeTasks\<close> is represented by the job its
  callback closes over; destroying a task is dropping or replacing its entry.\<close>
record 'f scheduler =
  activeTasks :: "(jsval \<times> Job) list"
  executionQueue :: "(jsval \<times> execution) list"
  isRunning :: bool
  stats :: "'f stats"

definition newScheduler :: "'f floatops \<Rightarrow> 'f scheduler" where
  "newScheduler fl =
     \<lparr> activeTasks = [], executionQueue = [], isRunning = False,
       stats = \<lparr> totalExecutions = 0, successfulExecutions = 0, failedExecutions = 0,
                 averageExecutionTime = fzero fl \<rparr> \<rparr>"

text \<open>\<open>cron.validate(job.cronExpression)\<close>: only a string can be valid.\<close>
definition validateValue :: "(string \<Rightarrow> bool) \<Rightarrow> jsval \<Rightarrow> bool" where
  "validateValue validate v = (case v of Str s \<Rightarrow> validate s | _ \<Rightarrow> False)"

definition scheduleJob :: "(string \<Rightarrow> bool) \<Rightarrow> 'f scheduler \<Rightarrow> Job \<Rightarrow> 'f scheduler" where
  "scheduleJob validate s job =
     (if \<not> validateValue validate (cronExpression job) then s
      else s\<lparr> activeTasks := mapSet (activeTasks s) (id_job job) job \<rparr>)"

definition unscheduleJob :: "'f scheduler \<Rightarrow> jsval \<Rightarrow> 'f scheduler" where
  "unscheduleJob s jobIdent =
     (if mapHas (activeTasks s) jobIdent
      then s\<lparr> activeTasks := mapDelete (activeTasks s) jobIdent \<rparr>
      else s)"

text \<open>\<open>syncJobs()\<close>; \<open>found\<close> is the outcome of awaiting
  \<open>jobRepository.findAll({ isActive: true, limit: 1000 })\<close>.\<close>
definition syncOptions :: findAllOptions where
  "syncOptions = defaultOptions\<lparr> o_isActive := Some True, o_limit := 1000 \<rparr>"

definition syncJobs :: "(string \<Rightarrow> bool) \<Rightarrow> 'f scheduler \<Rightarrow> error + findAllResult \<Rightarrow> 'f scheduler" where
  "syncJobs validate s found =
     (if \<not> isRunning s then s
      else case found of
             Inl e \<Rightarrow> s
           | Inr result \<Rightarrow>
               let activeJobIds = map id_job (r_jobs result);
                   scheduledJobIds = mapKeys (activeTasks s);
                   s1 = fold (\<lambda>job st. if id_job job \<notin> set scheduledJobIds
                                       then scheduleJob validate st job else st)
                             (r_jobs result) s
               in fold (\<lambda>jobIdent st. if jobIdent \<notin> set activeJobIds
                                      then unscheduleJob st jobIdent else st)
                       scheduledJobIds s1)"

text \<open>The clock readings and outcomes that one call of \<open>executeJob\<close> consumes.\<close>
record run =
  t_start :: int
  t_insert :: int
  new_id :: string
  work_ms :: int
  t_executed :: int
  t_end :: int
  t_catch :: int
  t_exec_update :: int
  t_exec_failed :: int
  t_stats_js :: int
  t_stats_db :: int
  t_next_js :: int
  t_next_db :: int

text \<open>\<open>INSERT INTO job_executions (job_id, status, started_at) VALUES ($1, $2, NOW())
  RETURNING id\<close>: the foreign key, the CHECK on \<open>status\<close> and the primary key are enforced;
  the other columns take their defaults.\<close>
definition statusAllowed :: "string \<Rightarrow> bool" where
  "statusAllowed st = (st \<in> set [''running'', ''completed'', ''failed'', ''timeout''])"

definition createExecutionRecord ::
  "database \<Rightarrow> jsval \<Rightarrow> string \<Rightarrow> int \<Rightarrow> string \<Rightarrow> error + (database \<times> string)" where
  "createExecutionRecord db jobIdent st now fresh =
     (case jobIdent of
        Str j \<Rightarrow>
          if \<not> list_ex (\<lambda>r. id_col r = j) (jobs db)
          then Inl (DbError ''violates foreign key constraint'')
          else if \<not> statusAllowed st
          then Inl (DbError ''violates check constraint'')
          else if list_ex (\<lambda>e. exec_id e = fresh \<and> started_at e = Some now) (job_executions db)
          then Inl (DbError ''duplicate key value violates unique constraint'')
          else Inr (db\<lparr> job_executions := job_executions db @
                        [\<lparr> exec_id = fresh, job_id = j, status = st, started_at = Some now,
                           completed_at = None, duration_ms = None, error_message = None,
                           retry_count = Some 0, output_col = Some (JObj []) \<rparr>] \<rparr>, fresh)
      | _ \<Rightarrow> Inl (DbError ''null value in column job_id violates not-null constraint''))"

text \<open>\<open>UPDATE job_executions SET status = $2, completed_at = NOW(), duration_ms = $3,
  error_message = $4, output = $5 WHERE id = $1\<close>\<close>
definition updateExecutionRecord ::
  "database \<Rightarrow> string \<Rightarrow> string \<Rightarrow> int \<Rightarrow> string option \<Rightarrow> json option \<Rightarrow> int
     \<Rightarrow> error + database" where
  "updateExecutionRecord db executionId st duration errorMessage out now =
     (if \<not> list_ex (\<lambda>e. exec_id e = executionId) (job_executions db) then Inr db
      else if \<not> statusAllowed st then Inl (DbError ''violates check constraint'')
      else if \<not> (int4_min \<le> duration \<and> duration \<le> int4_max) then Inl (DbError ''integer out of range'')
      else Inr (db\<lparr> job_executions :=
                  map (\<lambda>e. if exec_id e = executionId
                            then e\<lparr> status := st, completed_at := Some now,
                                    duration_ms := Some duration, error_message := errorMessage,
                                    output_col := out \<rparr>
                            else e)
                      (job_executions db) \<rparr>))"

text \<open>\<open>setTimeout(f, delay)\<close> of Node.js: a delay outside \<open>1 .. 2^31 - 1\<close> becomes 1.\<close>
definition timerDelay :: "int \<Rightarrow> int" where
  "timerDelay d = (if 1 \<le> d \<and> d \<le> 2147483647 then d else 1)"

definition jsonOfValue :: "jsval \<Rightarrow> json" where
  "jsonOfValue v = (case v of Json j \<Rightarrow> j | Bool b \<Rightarrow> JBool b | Num n \<Rightarrow> JNum n | Str s \<Rightarrow> JStr s
                    | Tags ts \<Rightarrow> JArr (map JStr ts) | _ \<Rightarrow> JNull)"

definition executionResult :: "string \<Rightarrow> string \<Rightarrow> Job \<Rightarrow> int \<Rightarrow> json" where
  "executionResult ty msg job executedAt =
     JObj [(''type'', JStr ty), (''message'', JStr msg), (''payload'', jsonOfValue (payload job)),
           (''executedAt'', JNum executedAt)]"

text \<open>
  \<open>performJobExecution(job)\<close>: a promise raced between the timeout timer, armed first with
  \<open>job.timeoutMs || 30000\<close>, and the timer of the simulated work, \<open>work\<close> milliseconds. The
  timer armed first fires first when both are due together. \<open>Inl\<close> is the rejection with
  the message of the error; \<open>executedAt\<close> stands for the ISO string of that instant.
\<close>
definition performJobExecution :: "Job \<Rightarrow> int \<Rightarrow> int \<Rightarrow> string + json" where
  "performJobExecution job work executedAt =
     (let timeout = (case jsor (timeoutMs job) (Num 30000) of Num n \<Rightarrow> n | _ \<Rightarrow> 1)
      in if timerDelay timeout \<le> timerDelay work then Inl ''Job execution timeout''
         else if jobType job = Str ''scheduled''
         then Inr (executionResult ''scheduled'' ''Scheduled job completed successfully'' job executedAt)
         else if jobType job = Str ''immediate''
         then Inr (executionResult ''immediate'' ''Immediate job completed successfully'' job executedAt)
         else if jobType job = Str ''recurring''
         then Inr (executionResult ''recurring'' ''Recurring job completed successfully'' job executedAt)
         else Inr (executionResult ''default'' ''Job completed successfully'' job executedAt))"

definition updateServiceStats :: "'f floatops \<Rightarrow> 'f scheduler \<Rightarrow> int \<Rightarrow> bool \<Rightarrow> 'f scheduler" where
  "updateServiceStats fl s duration success =
     (let st = stats s;
          total = totalExecutions st + 1
      in s\<lparr> stats :=
              \<lparr> totalExecutions = total,
                successfulExecutions = (if success then successfulExecutions st + 1 else successfulExecutions st),
                failedExecutions = (if success then failedExecutions st else failedExecutions st + 1),
                averageExecutionTime = running_mean fl (averageExecutionTime st) total duration \<rparr> \<rparr>)"

text \<open>\<open>jobRepository.updateJobStats(job.id, ...)\<close>: an id that is not a string matches no row.\<close>
definition updateJobStatsOf ::
  "pg_time \<Rightarrow> int \<Rightarrow> int \<Rightarrow> database \<Rightarrow> jsval \<Rightarrow> bool \<Rightarrow> error + database" where
  "updateJobStatsOf pg jsNow dbNow db jobIdent success =
     (case jobIdent of
        Str i \<Rightarrow> bindE (updateJobStats pg jsNow dbNow db i success) (\<lambda>(db', j). Inr db')
      | _ \<Rightarrow> Inr db)"

text \<open>\<open>updateNextRunTime(job)\<close>: \<open>UPDATE jobs SET next_run_at = $2, updated_at = NOW() WHERE
  id = $1\<close>; every error is caught and logged.\<close>
definition nextRunAssign :: "jsval \<Rightarrow> int \<Rightarrow> job_row \<Rightarrow> error + job_row" where
  "nextRunAssign nextRun now r =
     bindE (toTimestamp nextRun) (\<lambda>v2. Inr (r\<lparr> next_run_at := v2, updated_at := Some now \<rparr>))"

definition updateNextRunTime ::
  "(string \<Rightarrow> bool) \<Rightarrow> int \<Rightarrow> pg_time \<Rightarrow> int \<Rightarrow> int \<Rightarrow> database \<Rightarrow> Job \<Rightarrow> database" where
  "updateNextRunTime validate tz pg jsNow dbNow db job =
     (let nextRun = DateV (nextRunOf validate tz (cronExpression job) jsNow)
      in case id_job job of
           Str i \<Rightarrow>
             (case update_jobs_where_id pg dbNow (nextRunAssign nextRun dbNow) i (jobs db) of
                Inl e \<Rightarrow> db
              | Inr (tbl, rows) \<Rightarrow> db\<lparr> jobs := tbl \<rparr>)
         | _ \<Rightarrow> db)"

text \<open>The \<open>finally\<close> block of \<open>executeJob\<close>: \<open>this.executionQueue.delete(job.id)\<close>.\<close>
definition unregisterExecution :: "'f scheduler \<Rightarrow> Job \<Rightarrow> 'f scheduler" where
  "unregisterExecution s job = s\<lparr> executionQueue := mapDelete (executionQueue s) (id_job job) \<rparr>"

definition errorMessage :: "error \<Rightarrow> string" where
  "errorMessage e = (case e of ValidationFailed es \<Rightarrow> ''Validation failed'' | DbError m \<Rightarrow> m)"

text \<open>The \<open>catch\<close> block of \<open>executeJob\<close> followed by its \<open>finally\<close>: \<open>executionId\<close> is \<open>None\<close>
  when no execution row was created. An error thrown inside the block leaves the call
  after the \<open>finally\<close> has run; it is the second component of the result.\<close>
definition executeJobCatch ::
  "'f floatops \<Rightarrow> pg_time \<Rightarrow> run \<Rightarrow> 'f scheduler \<Rightarrow> database \<Rightarrow> Job \<Rightarrow> string option \<Rightarrow> string
     \<Rightarrow> ('f scheduler \<times> database) \<times> error option" where
  "executeJobCatch fl pg rn s db job executionId message =
     (let duration = t_catch rn - t_start rn;
          finally = (\<lambda>st. unregisterExecution st job);
          recorded = (case executionId of
                        None \<Rightarrow> Inr db
                      | Some eid \<Rightarrow> updateExecutionRecord db eid ''failed'' duration (Some message) None
                                     (t_exec_failed rn))
      in case recorded of
           Inl e \<Rightarrow> ((finally s, db), Some e)
         | Inr db1 \<Rightarrow>
             (case updateJobStatsOf pg (t_stats_js rn) (t_stats_db rn) db1 (id_job job) False of
                Inl e \<Rightarrow> ((finally s, db1), Some e)
              | Inr db2 \<Rightarrow> ((finally (updateServiceStats fl s duration False), db2), None)))"

text \<open>\<open>execution.id = executionId\<close>, on the record registered for the job.\<close>
definition assignExecutionId :: "'f scheduler \<Rightarrow> Job \<Rightarrow> string \<Rightarrow> 'f scheduler" where
  "assignExecutionId s job executionId =
     (case map_of (executionQueue s) (id_job job) of
        None \<Rightarrow> s
      | Some execution \<Rightarrow>
          s\<lparr> executionQueue :=
               mapSet (executionQueue s) (id_job job) (execution\<lparr> ctx_id := Some executionId \<rparr>) \<rparr>)"

text \<open>
  \<open>executeJob(job)\<close> after its guard: everything from the registration in
  \<open>executionQueue\<close> to the \<open>finally\<close> block, on the state \<open>s\<close> that holds the registration.
\<close>
definition executeJobRest ::
  "'f floatops \<Rightarrow> (string \<Rightarrow> bool) \<Rightarrow> int \<Rightarrow> pg_time \<Rightarrow> run \<Rightarrow> 'f scheduler \<Rightarrow> database \<Rightarrow> Job
     \<Rightarrow> ('f scheduler \<times> database) \<times> error option" where
  "executeJobRest fl validate tz pg rn s1 db job =
     (case createExecutionRecord db (id_job job) ''running'' (t_insert rn) (new_id rn) of
        Inl e \<Rightarrow> executeJobCatch fl pg rn s1 db job None (errorMessage e)
      | Inr (db1, executionId) \<Rightarrow>
          (let s2 = assignExecutionId s1 job executionId
           in (case performJobExecution job (work_ms rn) (t_executed rn) of
                 Inl message \<Rightarrow> executeJobCatch fl pg rn s2 db1 job (Some executionId) message
               | Inr result \<Rightarrow>
                   (let duration = t_end rn - t_start rn
                    in (case updateExecutionRecord db1 executionId ''completed'' duration None
                               (Some result) (t_exec_update rn) of
                          Inl e \<Rightarrow>
                            executeJobCatch fl pg rn s2 db1 job (Some executionId) (errorMessage e)
                        | Inr db2 \<Rightarrow>
                            (case updateJobStatsOf pg (t_stats_js rn) (t_stats_db rn) db2 (id_job job) True of
                               Inl e \<Rightarrow>
                                 executeJobCatch fl pg rn s2 db2 job (Some executionId) (errorMessage e)
                             | Inr db3 \<Rightarrow>
                                 (let db4 = updateNextRunTime validate tz pg (t_next_js rn) (t_next_db rn)
                                              db3 job;
                                      s3 = updateServiceStats fl s2 duration True
                                  in ((unregisterExecution s3 job, db4), None))))))))"

text \<open>The registration made once the guard has passed:
  \<open>this.executionQueue.set(job.id, { jobId, startTime, status: "running" })\<close>.\<close>
definition registerExecution :: "run \<Rightarrow> 'f scheduler \<Rightarrow> Job \<Rightarrow> 'f scheduler" where
  "registerExecution rn s job =
     s\<lparr> executionQueue :=
          mapSet (executionQueue s) (id_job job)
            \<lparr> jobId = id_job job, startTime = t_start rn, ctx_status = ''running'', ctx_id = None \<rparr> \<rparr>"

text \<open>\<open>executeJob(job)\<close> up to its first \<open>await\<close>: \<open>None\<close> when the guard returns, otherwise
  the state with the registration, in which the call is suspended.\<close>
definition enterExecuteJob :: "run \<Rightarrow> 'f scheduler \<Rightarrow> Job \<Rightarrow> 'f scheduler option" where
  "enterExecuteJob rn s job =
     (if mapHas (executionQueue s) (id_job job) then None
      else Some (registerExecution rn s job))"

text \<open>\<open>executeJob(job)\<close>, run to completion: the state of the service and of the store
  afterwards, and the error the call is rejected with, if any.\<close>
definition executeJob ::
  "'f floatops \<Rightarrow> (string \<Rightarrow> bool) \<Rightarrow> int \<Rightarrow> pg_time \<Rightarrow> run \<Rightarrow> 'f scheduler \<Rightarrow> database \<Rightarrow> Job
     \<Rightarrow> ('f scheduler \<times> database) \<times> error option" where
  "executeJob fl validate tz pg rn s db job =
     (if mapHas (executionQueue s) (id_job job) then ((s, db), None)
      else executeJobRest fl validate tz pg rn (registerExecution rn s job) db job)"

text \<open>The handler of \<open>POST /jobs/:id/trigger\<close> (controllers/jobController.js): \<open>None\<close> is the
  answer 404; otherwise the job found is handed to \<open>executeJob\<close>, whose error is logged.\<close>
definition triggerJob ::
  "'f floatops \<Rightarrow> (string \<Rightarrow> bool) \<Rightarrow> int \<Rightarrow> pg_time \<Rightarrow> run \<Rightarrow> 'f scheduler \<Rightarrow> database \<Rightarrow> string
     \<Rightarrow> ('f scheduler \<times> database) option" where
  "triggerJob fl validate tz pg rn s db i =
     (case findById db i of
        None \<Rightarrow> None
      | Some job \<Rightarrow> Some (fst (executeJob fl validate tz pg rn s db job)))"

text \<open>\<open>getStats()\<close>; \<open>successRate\<close> is a string or the number \<open>0\<close>.\<close>
datatype rate = RateNumber int | RateString string

record 'f schedulerStats =
  g_totalExecutions :: int
  g_successfulExecutions :: int
  g_failedExecutions :: int
  g_averageExecutionTime :: 'f
  g_isRunning :: bool
  activeJobs :: int
  runningExecutions :: int
  successRate :: rate

definition getStats :: "'f floatops \<Rightarrow> 'f scheduler \<Rightarrow> 'f schedulerStats" where
  "getStats fl s =
     \<lparr> g_totalExecutions = totalExecutions (stats s),
       g_successfulExecutions = successfulExecutions (stats s),
       g_failedExecutions = failedExecutions (stats s),
       g_averageExecutionTime = averageExecutionTime (stats s),
       g_isRunning = isRunning s,
       activeJobs = mapSize (activeTasks s),
       runningExecutions = mapSize (executionQueue s),
       successRate = (if totalExecutions (stats s) > 0
                      then RateString (percent_fixed2 fl (successfulExecutions (stats s))
                                                         (totalExecutions (stats s)))
                      else RateNumber 0) \<rparr>"


text \<open>\<open>start()\<close>; \<open>found\<close> is the outcome of \<open>findAll({ isActive: true, limit: 1000 })\<close> in
  \<open>loadAndScheduleJobs\<close>, whose error is thrown again. \<open>stop()\<close> up to its wait for the
  running executions.\<close>
definition start ::
  "(string \<Rightarrow> bool) \<Rightarrow> 'f scheduler \<Rightarrow> error + findAllResult \<Rightarrow> 'f scheduler \<times> error option" where
  "start validate s found =
     (if isRunning s then (s, None)
      else case found of
             Inl e \<Rightarrow> (s\<lparr> isRunning := False \<rparr>, Some e)
           | Inr result \<Rightarrow>
               (fold (\<lambda>job st. scheduleJob validate st job) (r_jobs result) (s\<lparr> isRunning := True \<rparr>), None))"

definition stop :: "'f scheduler \<Rightarrow> 'f scheduler" where
  "stop s = (if \<not> isRunning s then s else s\<lparr> isRunning := False, activeTasks := [] \<rparr>)"

text \<open>
  The states the service passes through, each with the list \<open>calls\<close> of the calls of
  \<open>executeJob\<close> that are in flight: a call joins the list, under the id of its job, when
  it is suspended at its first \<open>await\<close>, and leaves it when its \<open>finally\<close> block has run.
  The list is kept beside the program and is not read by it. A call that the guard
  turns away returns at once (\<open>skipped\<close>); otherwise it is suspended with its registration
  (\<open>began\<close>) while other calls run, and \<open>finished\<close> is the rest of a call in flight. The
  store is also written by the repository and by other clients (\<open>store\<close>).
\<close>
inductive reachable ::
  "'f floatops \<Rightarrow> (string \<Rightarrow> bool) \<Rightarrow> int \<Rightarrow> pg_time
     \<Rightarrow> 'f scheduler \<times> database \<times> jsval list \<Rightarrow> bool"
  for fl :: "'f floatops" and validate :: "string \<Rightarrow> bool" and tz :: int and pg :: pg_time
where
  init: "reachable fl validate tz pg (newScheduler fl, db, [])"
| store: "reachable fl validate tz pg (s, db, calls) \<Longrightarrow> reachable fl validate tz pg (s, db', calls)"
| started: "reachable fl validate tz pg (s, db, calls) \<Longrightarrow>
            reachable fl validate tz pg (fst (start validate s found), db, calls)"
| stopped: "reachable fl validate tz pg (s, db, calls) \<Longrightarrow>
            reachable fl validate tz pg (stop s, db, calls)"
| scheduled: "reachable fl validate tz pg (s, db, calls) \<Longrightarrow>
              reachable fl validate tz pg (scheduleJob validate s job, db, calls)"
| unscheduled: "reachable fl validate tz pg (s, db, calls) \<Longrightarrow>
                reachable fl validate tz pg (unscheduleJob s jobIdent, db, calls)"
| synced: "reachable fl validate tz pg (s, db, calls) \<Longrightarrow>
           reachable fl validate tz pg (syncJobs validate s found, db, calls)"
| skipped: "reachable fl validate tz pg (s, db, calls) \<Longrightarrow> enterExecuteJob rn s job = None \<Longrightarrow>
            reachable fl validate tz pg (s, db, calls)"
| began: "reachable fl validate tz pg (s, db, calls) \<Longrightarrow> enterExecuteJob rn s job = Some s1 \<Longrightarrow>
          reachable fl validate tz pg (s1, db, calls @ [id_job job])"
| finished: "reachable fl validate tz pg (s, db, calls) \<Longrightarrow> id_job job \<in> set calls \<Longrightarrow>
             executeJobRest fl validate tz pg rn s db job = ((s', db'), err) \<Longrightarrow>
             reachable fl validate tz pg (s', db', remove1 (id_job job) calls)"

section \<open>CacheService (services/cacheService.js)\<close>

text \<open>An entry of the cache; \<open>expiresAt\<close> is \<open>None\<close> for \<open>null\<close>. A pending TTL timer is
  represented by the instant it is due. Each call reads the clock once: \<open>now\<close>.\<close>
record 'v entry =
  value_entry :: 'v
  createdAt_entry :: int
  lastAccessed :: int
  expiresAt :: "int option"

record cacheStats =
  hits :: int
  misses :: int
  sets :: int
  deletes :: int

record 'v cacheService =
  cache :: "(string \<times> 'v entry) list"
  ttlTimers :: "(string \<times> int) list"
  cstats :: cacheStats

definition newCache :: "'v cacheService" where
  "newCache = \<lparr> cache = [], ttlTimers = [],
                cstats = \<lparr> hits = 0, misses = 0, sets = 0, deletes = 0 \<rparr> \<rparr>"

text \<open>\<open>delete(key)\<close>: the new state and whether the key existed.\<close>
definition cacheDelete :: "'v cacheService \<Rightarrow> string \<Rightarrow> 'v cacheService \<times> bool" where
  "cacheDelete c key =
     (let existed = mapHas (cache c) key;
          c1 = (if existed
                then c\<lparr> cache := mapDelete (cache c) key,
                        cstats := (cstats c)\<lparr> deletes := deletes (cstats c) + 1 \<rparr> \<rparr>
                else c);
          c2 = (if mapHas (ttlTimers c1) key
                then c1\<lparr> ttlTimers := mapDelete (ttlTimers c1) key \<rparr>
                else c1)
      in (c2, existed))"

text \<open>\<open>entry.expiresAt && Date.now() > entry.expiresAt\<close>: \<open>null\<close> and \<open>0\<close> are falsy.\<close>
definition expired :: "int \<Rightarrow> 'v entry \<Rightarrow> bool" where
  "expired now e = (case expiresAt e of None \<Rightarrow> False | Some x \<Rightarrow> x \<noteq> 0 \<and> now > x)"

text \<open>\<open>get(key)\<close>: the returned value (\<open>None\<close> for \<open>null\<close>) and the new state.\<close>
definition cacheGet :: "'v cacheService \<Rightarrow> string \<Rightarrow> int \<Rightarrow> 'v option \<times> 'v cacheService" where
  "cacheGet c key now =
     (case map_of (cache c) key of
        Some e \<Rightarrow>
          if expired now e
          then (let c1 = fst (cacheDelete c key)
                in (None, c1\<lparr> cstats := (cstats c1)\<lparr> misses := misses (cstats c1) + 1 \<rparr> \<rparr>))
          else (Some (value_entry e),
                c\<lparr> cache := mapSet (cache c) key (e\<lparr> lastAccessed := now \<rparr>),
                   cstats := (cstats c)\<lparr> hits := hits (cstats c) + 1 \<rparr> \<rparr>)
      | None \<Rightarrow> (None, c\<lparr> cstats := (cstats c)\<lparr> misses := misses (cstats c) + 1 \<rparr> \<rparr>))"

text \<open>\<open>evictLRU()\<close>: the entries are sorted by \<open>lastAccessed\<close>, oldest first (the sort of
  arrays is stable), and the first tenth, \<open>Math.floor(entries.length * 0.1)\<close>, is deleted.\<close>
definition evictLRU :: "'v cacheService \<Rightarrow> 'v cacheService" where
  "evictLRU c =
     (let entries = sort_key (\<lambda>ke. lastAccessed (snd ke)) (cache c);
          toRemove = length entries div 10
      in fold (\<lambda>ke st. fst (cacheDelete st (fst ke))) (take toRemove entries) c)"

text \<open>\<open>set(key, value, ttlMs)\<close>; \<open>ttlMs\<close> is \<open>None\<close> for \<open>null\<close>, and \<open>0\<close> is as falsy.\<close>
definition cacheSet :: "'v cacheService \<Rightarrow> string \<Rightarrow> 'v \<Rightarrow> int option \<Rightarrow> int \<Rightarrow> 'v cacheService" where
  "cacheSet c key v ttlMs now =
     (let ttl = (case ttlMs of None \<Rightarrow> None | Some t \<Rightarrow> if t = 0 then None else Some t);
          e = \<lparr> value_entry = v, createdAt_entry = now, lastAccessed = now,
                expiresAt = map_option (\<lambda>t. now + t) ttl \<rparr>;
          c1 = (if mapHas (ttlTimers c) key
                then c\<lparr> ttlTimers := mapDelete (ttlTimers c) key \<rparr> else c);
          c2 = c1\<lparr> cache := mapSet (cache c1) key e,
                   cstats := (cstats c1)\<lparr> sets := sets (cstats c1) + 1 \<rparr> \<rparr>;
          c3 = (case ttl of None \<Rightarrow> c2
                | Some t \<Rightarrow> c2\<lparr> ttlTimers := mapSet (ttlTimers c2) key (now + timerDelay t) \<rparr>)
      in if mapSize (cache c3) > 1000 then evictLRU c3 else c3)"

text \<open>The callback of a TTL timer: \<open>this.delete(key)\<close>.\<close>
definition ttlTimerFires :: "'v cacheService \<Rightarrow> string \<Rightarrow> 'v cacheService" where
  "ttlTimerFires c key = fst (cacheDelete c key)"

text \<open>The event loop before a call made at \<open>now\<close>: the TTL timers that are due by then run,
  in the order in which they were armed.\<close>
definition dueTimers :: "'v cacheService \<Rightarrow> int \<Rightarrow> string list" where
  "dueTimers c now = map fst (filter (\<lambda>kd. snd kd \<le> now) (ttlTimers c))"

definition runTimers :: "'v cacheService \<Rightarrow> int \<Rightarrow> 'v cacheService" where
  "runTimers c now = fold (\<lambda>key st. ttlTimerFires st key) (dueTimers c now) c"


section \<open>Reference points for the stated properties\<close>

text \<open>The four shapes of expression that the specification names as hot paths, and the
  expression each one is written as.\<close>
datatype hot_path = EveryMinute | EveryNMinutes nat | AtMinute nat | DailyAt nat nat

fun hot_path_expression :: "hot_path \<Rightarrow> string" where
  "hot_path_expression EveryMinute = ''* * * * *''"
| "hot_path_expression (EveryNMinutes n) = ''*/'' @ decimal n @ '' * * * *''"
| "hot_path_expression (AtMinute m) = decimal m @ '' * * * *''"
| "hot_path_expression (DailyAt m h) = decimal m @ '' '' @ decimal h @ '' * * *''"

text \<open>Civil time in Asia/Kolkata of a UTC instant, and what it means for an instant to
  satisfy an expression of these shapes: the seconds and milliseconds are zero and the
  minute (and hour) are as the expression asks; \<open>*/N\<close> asks for a minute divisible by \<open>N\<close>.\<close>
definition istMinute :: "int \<Rightarrow> int" where
  "istMinute t = ((t + istOffset) div msPerMinute) mod 60"

definition istHour :: "int \<Rightarrow> int" where
  "istHour t = ((t + istOffset) div msPerHour) mod 24"

definition onTheMinute :: "int \<Rightarrow> bool" where
  "onTheMinute t = ((t + istOffset) mod msPerMinute = 0)"

fun satisfies :: "hot_path \<Rightarrow> int \<Rightarrow> bool" where
  "satisfies EveryMinute t = onTheMinute t"
| "satisfies (EveryNMinutes n) t = (onTheMinute t \<and> istMinute t mod int n = 0)"
| "satisfies (AtMinute m) t = (onTheMinute t \<and> istMinute t = int m)"
| "satisfies (DailyAt m h) t = (onTheMinute t \<and> istMinute t = int m \<and> istHour t = int h)"

text \<open>The shapes that \<open>calculateNextRunTime\<close> computes exactly: any minute and hour of the
  day, and a step that divides the hour. For these, the index (in whole minutes of the
  clock of Asia/Kolkata) of the instant it returns, from the index of the minute the base
  lies in; and what an expression asks of the index of a minute.\<close>
fun handledExactly :: "hot_path \<Rightarrow> bool" where
  "handledExactly EveryMinute = True"
| "handledExactly (EveryNMinutes n) = (0 < n \<and> n dvd 60)"
| "handledExactly (AtMinute m) = (m < 60)"
| "handledExactly (DailyAt m h) = (m < 60 \<and> h < 24)"

fun nextIndex :: "hot_path \<Rightarrow> int \<Rightarrow> int" where
  "nextIndex EveryMinute q = q + 1"
| "nextIndex (EveryNMinutes n) q = 60 * (q div 60) + (q mod 60 div int n + 1) * int n"
| "nextIndex (AtMinute m) q = 60 * (q div 60) + int m + (if int m \<le> q mod 60 then 60 else 0)"
| "nextIndex (DailyAt m h) q =
     1440 * (q div 1440) + 60 * int h + int m
       + (if 1440 * (q div 1440) + 60 * int h + int m \<le> q then 1440 else 0)"

fun shapeIndex :: "hot_path \<Rightarrow> int \<Rightarrow> bool" where
  "shapeIndex EveryMinute k = True"
| "shapeIndex (EveryNMinutes n) k = (k mod 60 mod int n = 0)"
| "shapeIndex (AtMinute m) k = (k mod 60 = int m)"
| "shapeIndex (DailyAt m h) k = (k mod 60 = int m \<and> k div 60 mod 24 = int h)"

text \<open>The relative error of one rounding to a double in the normal range.\<close>
definition unitRoundoff :: rat where
  "unitRoundoff = 1 / 2 ^ 53"

text \<open>A session of the store in UTC, for the two units whose truncation needs no calendar.\<close>
definition utcSession :: pg_time where
  "utcSession =
     \<lparr> date_trunc = (\<lambda>unit t. if unit = ''hour'' then t - t mod msPerHour
                                else if unit = ''day'' then t - t mod msPerDay else t),
       plus_interval = (\<lambda>t iv. if iv = ''1 hour'' then t + msPerHour
                                else if iv = ''1 day'' then t + msPerDay
                                else if iv = ''1 week'' then t + 7 * msPerDay else t) \<rparr>"


text \<open>A stored job, a store holding it, the readings of one run and the patch that names
  no field: the concrete data of the examples below.\<close>
definition exampleRow :: job_row where
  "exampleRow =
     \<lparr> id_col = ''job-1'', name_col = ''tick'', description_col = None,
       cron_expression = ''* * * * *'', is_active = Some True, job_type = ''scheduled'',
       payload_col = Some (JObj []), created_at = Some 1000, updated_at = Some 1000,
       last_run_at = None, next_run_at = Some 60000, total_runs = Some 5,
       successful_runs = Some 3, failed_runs = Some 2, timeout_ms = Some 1000,
       max_retries = Some 0, retry_delay_ms = Some 5000, created_by = Some ''alice'',
       tags_col = Some [] \<rparr>"

definition exampleDb :: database where
  "exampleDb = \<lparr> jobs = [exampleRow], job_executions = [] \<rparr>"

definition exampleRun :: run where
  "exampleRun =
     \<lparr> t_start = 10000, t_insert = 10001, new_id = ''exec-1'', work_ms = 2000,
       t_executed = 12000, t_end = 12001, t_catch = 11002, t_exec_update = 12002,
       t_exec_failed = 11003, t_stats_js = 11004, t_stats_db = 11005,
       t_next_js = 12005, t_next_db = 12006 \<rparr>"

definition emptyPatch :: patch where
  "emptyPatch = \<lparr> p_name = None, p_description = None, p_cronExpression = None,
       p_isActive = None, p_jobType = None, p_payload = None, p_timeoutMs = None,
       p_maxRetries = None, p_retryDelayMs = None, p_createdBy = None, p_tags = None \<rparr>"

text \<open>What every state of the service satisfies: a map holds each key once, and the
  counters of the service add up.\<close>
definition schedulerInvariant :: "'f scheduler \<Rightarrow> bool" where
  "schedulerInvariant s =
     (distinct (mapKeys (activeTasks s)) \<and> distinct (mapKeys (executionQueue s)) \<and>
      0 \<le> successfulExecutions (stats s) \<and> 0 \<le> failedExecutions (stats s) \<and>
      totalExecutions (stats s) = successfulExecutions (stats s) + failedExecutions (stats s))"

text \<open>What holds of the calls in flight beside the invariant of the state: no job id
  occurs twice among them, and their ids are the keys of \<open>executionQueue\<close>.\<close>
definition inFlightInvariant :: "'f scheduler \<Rightarrow> jsval list \<Rightarrow> bool" where
  "inFlightInvariant s calls =
     (schedulerInvariant s \<and> distinct calls \<and> set calls = set (mapKeys (executionQueue s)))"

text \<open>The conditions under which \<open>calculateNextRunTime\<close> takes one of its four
  special-cased branches, as its chain of tests reads them off the expression.\<close>
definition specialCased :: "string \<Rightarrow> bool" where
  "specialCased expr =
     (let parts = split_space expr;
          minute = element parts 0;
          hour = element parts 1;
          day = element parts 2;
          month = element parts 3
      in expr = ''* * * * *''
         \<or> (case minute of None \<Rightarrow> False | Some m \<Rightarrow> startsWith m ''*/'')
         \<or> (minute \<noteq> Some ''*'' \<and> hour = Some ''*'')
         \<or> (minute \<noteq> Some ''*'' \<and> hour \<noteq> Some ''*'' \<and> day = Some ''*'' \<and> month = Some ''*''))"

text \<open>The instant after \<open>t\<close> at which the clock of the process, read \<open>istOffset\<close> ahead,
  shows the start of an hour; in a process running in UTC that is the start of the next
  clock hour of Asia/Kolkata.\<close>
definition nextLocalHour :: "int \<Rightarrow> int \<Rightarrow> int" where
  "nextLocalHour tz t = t + msPerHour - (t + istOffset + tz) mod msPerHour"

text \<open>The stored job as the repository hands it to the scheduler, and the service while
  that job runs.\<close>
definition exampleJob :: Job where
  "exampleJob = firstJob [exampleRow]"

definition runningState :: "double scheduler" where
  "runningState = registerExecution exampleRun (newScheduler doubleOps) exampleJob"

text \<open>A store with a second, newer job; what a sync tick loads from it; and a running
  service that holds a timer for the first job and one for a job that is gone.\<close>
definition secondRow :: job_row where
  "secondRow = exampleRow\<lparr> id_col := ''job-2'', created_at := Some 2000 \<rparr>"

definition twoJobsDb :: database where
  "twoJobsDb = \<lparr> jobs = [exampleRow, secondRow], job_executions = [] \<rparr>"

definition exampleLoaded :: findAllResult where
  "exampleLoaded =
     \<lparr> r_jobs = [Job_new (rowObject secondRow), Job_new (rowObject exampleRow)],
       r_total = 2, r_page = 1, r_limit = 1000, r_totalPages = Some 1 \<rparr>"

definition syncingState :: "double scheduler" where
  "syncingState =
     scheduleJob cronPattern
       (scheduleJob cronPattern ((newScheduler doubleOps)\<lparr> isRunning := True \<rparr>)
          (Job_new (rowObject (exampleRow\<lparr> id_col := ''job-0'' \<rparr>))))
       exampleJob"

text \<open>A run whose simulated work ends before the timeout, and the service after that run
  of the stored job.\<close>
definition quickRun :: run where
  "quickRun = exampleRun\<lparr> work_ms := 600 \<rparr>"

definition finishedState :: "double scheduler" where
  "finishedState =
     fst (fst (executeJobRest doubleOps cronPattern 0 utcSession quickRun runningState exampleDb exampleJob))"

section \<open>Properties of the repository\<close>

lemma update_jobs_where_id_absent:
  "i \<notin> id_col ` set rs \<Longrightarrow> update_jobs_where_id pg now assign i rs = Inr (rs, [])"
  by (induction rs) (auto simp: bindE_def)

lemma update_jobs_where_id_unique:
  assumes "distinct (map id_col rs)" and "r \<in> set rs" and "id_col r = i"
    and "assign r = Inr new"
    and "jobsConstraints (update_next_run_trigger pg now r new) = Inr r'"
  shows "update_jobs_where_id pg now assign i rs =
           Inr (map (\<lambda>x. if x = r then r' else x) rs, [r'])"
  using assms
proof (induction rs)
  case Nil
  then show ?case by simp
next
  case (Cons x rs)
  show ?case
  proof (cases "x = r")
    case True
    with Cons.prems have "i \<notin> id_col ` set rs" by auto
    then have rest: "update_jobs_where_id pg now assign i rs = Inr (rs, [])"
      by (rule update_jobs_where_id_absent)
    from Cons.prems True have "r \<notin> set rs" by auto
    then have "map (\<lambda>x. if x = r then r' else x) rs = rs"
      by (induction rs) auto
    with True rest Cons.prems show ?thesis by (simp add: bindE_def)
  next
    case False
    with Cons.prems have "r \<in> set rs" "id_col x \<noteq> i" "distinct (map id_col rs)" by auto
    with Cons.IH Cons.prems False show ?thesis by (simp add: bindE_def)
  qed
qed

text \<open>
  C4. In a table whose primary key is unique, for a stored job that satisfies the
  constraints of its table and whose three counters are not NULL and below the largest
  \<open>INTEGER\<close>, \<open>updateJobStats(id, {success})\<close> succeeds and rewrites exactly that row:
  \<open>total_runs\<close> grows by one, \<open>successful_runs\<close> by one iff \<open>success\<close>, \<open>failed_runs\<close> by one
  iff not \<open>success\<close>, \<open>last_run_at\<close> becomes the current time of the process and
  \<open>updated_at\<close> that of the store; every other column and every other row is kept.
  Hence \<open>successful_runs + failed_runs \<le> total_runs\<close> is preserved.
\<close>
theorem updateJobStats_counters:
  assumes pk: "distinct (map id_col (jobs db))"
    and row: "r \<in> set (jobs db)" "id_col r = i"
    and ok: "jobsConstraints r = Inr r"
    and counters: "total_runs r = Some n" "successful_runs r = Some a" "failed_runs r = Some b"
    and room: "n < int4_max" "a < int4_max" "b < int4_max"
  shows "\<exists>r'. updateJobStats pg jsNow dbNow db i success
              = Inr (db\<lparr> jobs := map (\<lambda>x. if x = r then r' else x) (jobs db) \<rparr>,
                     Some (Job_new (rowObject r')))
            \<and> r' = r\<lparr> last_run_at := Some jsNow, total_runs := Some (n + 1),
                       successful_runs := Some (if success then a + 1 else a),
                       failed_runs := Some (if success then b else b + 1),
                       updated_at := Some dbNow \<rparr>
            \<and> (a + b \<le> n \<longrightarrow> (if success then a + 1 else a) + (if success then b else b + 1) \<le> n + 1)"
proof -
  let ?r' = "r\<lparr> last_run_at := Some jsNow, total_runs := Some (n + 1),
                successful_runs := Some (if success then a + 1 else a),
                failed_runs := Some (if success then b else b + 1),
                updated_at := Some dbNow \<rparr>"
  let ?assign = "statsAssign (DateV (Some jsNow)) (if success then 1 else 0) (if success then 0 else 1) dbNow"
  from ok counters have nonneg: "0 \<le> n" "0 \<le> a" "0 \<le> b"
    by (auto simp: jobsConstraints_def checkGe_def split: if_splits)
  have asg: "?assign r = Inr ?r'"
    using counters room nonneg
    by (simp add: statsAssign_def bindE_def toTimestamp_def sqlPlus_def int4_min_def int4_max_def)
  have trig: "update_next_run_trigger pg dbNow r ?r' = ?r'"
    by (simp add: update_next_run_trigger_def)
  have chk: "jobsConstraints ?r' = Inr ?r'"
    using ok nonneg
    by (auto simp: jobsConstraints_def checkGe_def checkGt_def split: if_splits)
  have chk': "jobsConstraints (update_next_run_trigger pg dbNow r ?r') = Inr ?r'"
    using trig chk by (simp only:)
  have upd: "update_jobs_where_id pg dbNow ?assign i (jobs db)
          = Inr (map (\<lambda>x. if x = r then ?r' else x) (jobs db), [?r'])"
    by (rule update_jobs_where_id_unique[where assign="?assign" and new="?r'", OF pk row asg chk'])
  have res: "updateJobStats pg jsNow dbNow db i success
              = Inr (db\<lparr> jobs := map (\<lambda>x. if x = r then ?r' else x) (jobs db) \<rparr>,
                     Some (Job_new (rowObject ?r')))"
    unfolding updateJobStats_def upd by (simp add: bindE_def firstJob_def)
  have inv: "a + b \<le> n \<longrightarrow> (if success then a + 1 else a) + (if success then b else b + 1) \<le> n + 1"
    by simp
  from res inv show ?thesis by blast
qed

theorem updateJobStats_counters_witness:
  "\<exists>r'. updateJobStats utcSession 7000 7001 exampleDb ''job-1'' True
            = Inr (exampleDb\<lparr> jobs := map (\<lambda>x. if x = exampleRow then r' else x) (jobs exampleDb) \<rparr>,
                   Some (Job_new (rowObject r')))
        \<and> r' = exampleRow\<lparr> last_run_at := Some 7000, total_runs := Some 6,
                            successful_runs := Some 4, failed_runs := Some 2,
                            updated_at := Some 7001 \<rparr>"
proof -
  have pk: "distinct (map id_col (jobs exampleDb))"
    by (simp add: exampleDb_def)
  have row: "exampleRow \<in> set (jobs exampleDb)" "id_col exampleRow = ''job-1''"
    by (simp_all add: exampleDb_def exampleRow_def)
  have pat: "cronPattern ''* * * * *''"
    by code_simp
  have ok: "jobsConstraints exampleRow = Inr exampleRow"
    using pat by (simp add: jobsConstraints_def exampleRow_def checkGe_def checkGt_def varcharFits_def)
  have counters: "total_runs exampleRow = Some 5" "successful_runs exampleRow = Some 3"
    "failed_runs exampleRow = Some 2"
    by (simp_all add: exampleRow_def)
  have room: "(5::int) < int4_max" "(3::int) < int4_max" "(2::int) < int4_max"
    by (simp_all add: int4_max_def)
  from updateJobStats_counters[OF pk row ok counters room, of utcSession 7000 7001 True]
  show ?thesis by simp
qed

text \<open>
  C6 fails in its frame: a stored job with \<open>max_retries = 0\<close> that is renamed by a patch
  naming only \<open>name\<close> is written back with \<open>max_retries = 3\<close>, because the constructor of
  \<open>Job\<close> reads \<open>0\<close> through \<open>||\<close> as a missing value.
\<close>
theorem update_resets_zero_max_retries:
  "max_retries exampleRow = Some 0
   \<and> p_maxRetries (emptyPatch\<lparr> p_name := Some ''renamed'' \<rparr>) = None
   \<and> (case update cronPattern 0 utcSession 5000 6000 exampleDb ''job-1''
               (patchObject (emptyPatch\<lparr> p_name := Some ''renamed'' \<rparr>)) of
         Inl e \<Rightarrow> False
       | Inr (db', j) \<Rightarrow> map max_retries (jobs db') = [Some 3] \<and> map name_col (jobs db') = [''renamed''])"
  by code_simp
text \<open>When the patch changes \<open>cron_expression\<close>, \<open>update\<close> computes the next run (here 300000) and the
  row trigger \<open>jobs_update_next_run\<close> replaces it by the value of \<open>calculate_next_run\<close>, one hour
  after \<open>NOW()\<close> for this expression.\<close>
lemma trigger_overwrites_next_run_at:
  "nextRunOf cronPattern 0 (Str ''*/5 * * * *'') 5000 = Some 300000
   \<and> (case update cronPattern 0 utcSession 5000 6000 exampleDb ''job-1''
               (patchObject (emptyPatch\<lparr> p_cronExpression := Some ''*/5 * * * *'' \<rparr>)) of
         Inl e \<Rightarrow> False
       | Inr (db', j) \<Rightarrow> map next_run_at (jobs db') = [Some 3606000])"
  by code_simp

section \<open>Properties of the double arithmetic\<close>

text \<open>A decimal numeral consists of digits.\<close>
lemma digit_table:
  "list_all (\<lambda>k. digitValue (digitChar k) = Some k \<and> isDigit (digitChar k)) [0..<10]"
  by code_simp

lemma digitValue_small: "k < 10 \<Longrightarrow> digitValue (digitChar k) = Some k"
  using digit_table unfolding list_all_iff by simp

lemma isDigit_small: "k < 10 \<Longrightarrow> isDigit (digitChar k)"
  using digit_table unfolding list_all_iff by simp

lemma digitChar_mod: "digitChar (d mod 10) = digitChar d"
  by (simp add: digitChar_def)

lemma isDigit_digitChar: "isDigit (digitChar d)"
  using isDigit_small[of "d mod 10"] by (simp add: digitChar_mod)

lemma decimal_digits: "list_all isDigit (decimal n)"
proof (induction n rule: decimal.induct)
  case (1 n)
  show ?case
  proof (cases "n < 10")
    case True
    then show ?thesis by (subst decimal.simps) (simp add: isDigit_digitChar)
  next
    case False
    with 1 show ?thesis by (subst decimal.simps) (simp add: isDigit_digitChar)
  qed
qed

text \<open>Rounding to a double moves a value of the normal range by at most the fraction
  \<open>2^-53\<close> of it, and leaves an integer of at most \<open>2^53\<close> as it is.\<close>
lemma roundHalfEven_near: "\<bar>of_int (roundHalfEven y) - y\<bar> \<le> 1 / 2"
proof -
  let ?f = "\<lfloor>y\<rfloor>"
  have a: "of_int ?f \<le> y" "y < of_int ?f + 1" by linarith+
  consider "y - of_int ?f < 1 / 2" | "1 / 2 < y - of_int ?f" | "y - of_int ?f = 1 / 2"
    by linarith
  then show ?thesis
  proof cases
    case 1
    then have "roundHalfEven y = ?f" by (simp add: roundHalfEven_def Let_def)
    with 1 a show ?thesis by simp
  next
    case 2
    then have "roundHalfEven y = ?f + 1" by (simp add: roundHalfEven_def Let_def)
    with 2 a show ?thesis by simp
  next
    case 3
    then have "roundHalfEven y = ?f \<or> roundHalfEven y = ?f + 1"
      by (simp add: roundHalfEven_def Let_def)
    with 3 show ?thesis by auto
  qed
qed

lemma binaryExponent_le:
  assumes "0 < x"
  shows "2 powi (binaryExponent x) \<le> x"
proof -
  obtain p q where pq: "quotient_of x = (p, q)" by (cases "quotient_of x")
  then have q: "0 < q" by (rule quotient_of_denom_pos)
  have x: "x = of_int p / of_int q" using pq by (rule quotient_of_div)
  with assms q have p: "0 < p" by (simp add: zero_less_divide_iff)
  let ?e0 = "bitlen p - bitlen q"
  have ax: "\<bar>x\<bar> = x" using assms by simp
  show ?thesis
  proof (cases "2 powi ?e0 \<le> x")
    case True
    then show ?thesis by (simp add: binaryExponent_def ax pq)
  next
    case False
    have bp: "(2::int) ^ nat (bitlen p - 1) \<le> p" using bitlen_bounds[OF p] by simp
    have bq: "q < (2::int) ^ nat (bitlen q)" using bitlen_bounds[OF q] by simp
    have lp: "1 \<le> bitlen p" using p bitlen_eq_zero_iff[of p] bitlen_nonneg[of p] by linarith
    have "(2::rat) powi (bitlen p - 1) = 2 ^ nat (bitlen p - 1)"
      using lp by (simp add: power_int_def)
    also have "\<dots> \<le> of_int p" using bp by (metis of_int_le_iff of_int_numeral of_int_power)
    finally have 1: "(2::rat) powi (bitlen p - 1) \<le> of_int p" .
    have "(of_int q :: rat) \<le> 2 ^ nat (bitlen q)"
      using bq by (metis less_imp_le of_int_le_iff of_int_numeral of_int_power)
    also have "\<dots> = 2 powi (bitlen q)"
      using bitlen_nonneg[of q] by (simp add: power_int_def)
    finally have 2: "(of_int q :: rat) \<le> 2 powi (bitlen q)" .
    have "(2::rat) powi (?e0 - 1) = 2 powi (bitlen p - 1) / 2 powi (bitlen q)"
      by (simp add: power_int_diff)
    also have "\<dots> \<le> of_int p / 2 powi (bitlen q)"
      using 1 by (simp add: divide_right_mono)
    also have "\<dots> \<le> of_int p / of_int q"
      using 2 p q by (simp add: divide_left_mono)
    finally have "(2::rat) powi (?e0 - 1) \<le> x" using x by simp
    with False show ?thesis by (simp add: binaryExponent_def ax pq)
  qed
qed

lemma roundToDouble_error:
  assumes pos: "0 < x" and normal: "2 powi (- 1022) \<le> x" and small: "x \<le> 1000"
  shows "\<exists>y. roundToDouble x = Finite y \<and> \<bar>y - x\<bar> \<le> x / 2 ^ 53"
proof -
  let ?e = "max (binaryExponent x) (- 1022)"
  let ?ulp = "(2::rat) powi (?e - 52)"
  let ?y = "of_int (roundHalfEven (x / ?ulp)) * ?ulp"
  have ulp: "0 < ?ulp" by simp
  have le: "(2::rat) powi ?e \<le> x"
    using binaryExponent_le[OF pos] normal by (simp add: max_def)
  have "\<bar>?y - x\<bar> = \<bar>of_int (roundHalfEven (x / ?ulp)) - x / ?ulp\<bar> * ?ulp"
  proof -
    have "?y - x = (of_int (roundHalfEven (x / ?ulp)) - x / ?ulp) * ?ulp"
      using ulp by (simp add: field_simps)
    then show ?thesis using ulp by (simp add: abs_mult)
  qed
  also have "\<dots> \<le> 1 / 2 * ?ulp"
    using roundHalfEven_near[of "x / ?ulp"] ulp by (simp add: mult_right_mono)
  also have "1 / 2 * ?ulp = 2 powi ?e / 2 ^ 53"
  proof -
    have "(2::rat) powi (?e - 52) = 2 powi ?e / 2 powi 52" by (simp add: power_int_diff)
    then show ?thesis by simp
  qed
  also have "\<dots> \<le> x / 2 ^ 53" using le by (simp add: divide_right_mono)
  finally have err: "\<bar>?y - x\<bar> \<le> x / 2 ^ 53" .
  have "x / 2 ^ 53 \<le> x" using pos by (simp add: field_simps)
  with err have "?y \<le> 2 * x" "- ?y \<le> 0" using pos by linarith+
  moreover have "(2000::rat) < 2 powi 1024"
  proof -
    have "(2000::rat) < 2 ^ 11" by simp
    also have "\<dots> \<le> 2 ^ 1024" by (rule power_increasing) simp_all
    finally show ?thesis by simp
  qed
  ultimately have fin: "\<not> 2 powi 1024 \<le> ?y" "\<not> ?y \<le> - (2 powi 1024)"
    using small by linarith+
  have "roundToDouble x = Finite ?y"
    using pos fin by (simp add: roundToDouble_def Let_def)
  with err show ?thesis by blast
qed

lemma roundHalfEven_of_int: "roundHalfEven (of_int k) = k"
  by (simp add: roundHalfEven_def Let_def)

lemma roundToDouble_of_int:
  assumes nonneg: "0 \<le> i" and safe: "i \<le> 2 ^ 53"
  shows "roundToDouble (of_int i) = Finite (of_int i)"
proof (cases "i = 0")
  case True
  then show ?thesis by (simp add: roundToDouble_def)
next
  case False
  define x :: rat where "x = of_int i"
  with False nonneg have pos: "0 < x" by simp
  have xle: "x \<le> 2 powi 53"
  proof -
    have "(of_int i :: rat) \<le> of_int (2 ^ 53)" using safe by (simp only: of_int_le_iff)
    then show ?thesis by (simp add: x_def)
  qed
  define e where "e = max (binaryExponent x) (- 1022)"
  define ulp :: rat where "ulp = 2 powi (e - 52)"
  have ulp: "0 < ulp" by (simp add: ulp_def)
  have "(2::rat) powi (binaryExponent x) \<le> 2 powi 53"
    using binaryExponent_le[OF pos] xle by linarith
  then have "binaryExponent x \<le> 53"
    by (rule power_int_le_imp_le_exp[rotated]) simp_all
  then have e53: "e \<le> 53" by (simp add: e_def)
  have whole: "\<exists>k. x / ulp = of_int k"
  proof (cases "e \<le> 52")
    case True
    then have "1 / ulp = 2 powi (52 - e)"
      by (simp add: ulp_def power_int_diff)
    also have "\<dots> = 2 ^ nat (52 - e)"
      using True by (simp add: power_int_def)
    finally have inv: "1 / ulp = 2 ^ nat (52 - e)" .
    have "x / ulp = x * (1 / ulp)" by simp
    also have "\<dots> = of_int (i * 2 ^ nat (52 - e))"
      unfolding inv by (simp add: x_def)
    finally have "x / ulp = of_int (i * 2 ^ nat (52 - e))" .
    then show ?thesis by blast
  next
    case False
    with e53 have e: "e = 53" by simp
    then have b: "binaryExponent x = 53" by (simp add: e_def max_def split: if_splits)
    have "(2::rat) powi 53 \<le> x" using binaryExponent_le[OF pos] b by simp
    with xle have "x = 2 powi 53" by simp
    then have "x / ulp = of_int (2 ^ 52)"
      by (simp add: ulp_def e)
    then show ?thesis by blast
  qed
  then obtain k where k: "x / ulp = of_int k" by blast
  then have y: "of_int (roundHalfEven (x / ulp)) * ulp = x"
    using ulp by (simp add: roundHalfEven_of_int field_simps)
  have big: "x < 2 powi 1024"
  proof -
    have "(2::rat) powi 53 < 2 powi 1024" by (rule power_int_strict_increasing) simp_all
    with xle show ?thesis by linarith
  qed
  have "roundToDouble x = Finite x"
    using pos big y unfolding roundToDouble_def Let_def e_def[symmetric] ulp_def[symmetric]
    by (simp add: not_le)
  then show ?thesis by (simp add: x_def)
qed

lemma unitRoundoff_bounds:
  "0 < unitRoundoff" "unitRoundoff \<le> 1 / 2" "300 * unitRoundoff \<le> 1 / 10 ^ 13"
  "2 powi (- 1022) \<le> unitRoundoff"
proof -
  show "0 < unitRoundoff" "unitRoundoff \<le> 1 / 2" "300 * unitRoundoff \<le> 1 / 10 ^ 13"
    by (simp_all add: unitRoundoff_def)
  have "(2::rat) powi (- 1022) = 1 / 2 ^ 1022"
    by (simp add: power_int_def field_simps)
  also have "\<dots> \<le> 1 / 2 ^ 53"
  proof -
    have "(2::rat) ^ 53 \<le> 2 ^ 1022" by (rule power_increasing) simp_all
    then show ?thesis by (simp add: field_simps)
  qed
  finally show "2 powi (- 1022) \<le> unitRoundoff" by (simp add: unitRoundoff_def)
qed

lemma roundToDouble_relative:
  assumes "0 < x" "2 powi (- 1022) \<le> x" "x \<le> 1000"
  shows "\<exists>y. roundToDouble x = Finite y \<and> \<bar>y - x\<bar> \<le> x * unitRoundoff"
  using roundToDouble_error[OF assms] by (simp add: unitRoundoff_def)

lemma percent_value:
  assumes ok: "0 \<le> ok" "ok \<le> tot" and tot: "0 < tot" "tot \<le> 2 ^ 53"
  shows "\<exists>p. dmul (ddiv (numberOf ok) (numberOf tot)) (Finite 100) = Finite p \<and> 0 \<le> p
           \<and> \<bar>p - 100 * (of_int ok / of_int tot)\<bar> \<le> 1 / 10 ^ 13"
proof (cases "ok = 0")
  case True
  then show ?thesis
    using tot by (simp add: dmul_def ddiv_def numberOf_def roundToDouble_def)
next
  case False
  define r :: rat where "r = of_int ok / of_int tot"
  define u :: rat where "u = unitRoundoff"
  note ub = unitRoundoff_bounds[folded u_def]
  from False ok have okpos: "1 \<le> ok" by simp
  have tpos: "(0::rat) < of_int tot" using tot by simp
  have r1: "r \<le> 1" using ok tot by (simp add: r_def field_simps)
  have "(of_int tot :: rat) \<le> 2 ^ 53"
    using tot(2) by (metis of_int_le_iff of_int_numeral of_int_power)
  then have "1 / 2 ^ 53 \<le> 1 / (of_int tot :: rat)"
    using tpos by (simp add: field_simps)
  also have "\<dots> \<le> r" using okpos tpos by (simp add: r_def divide_right_mono)
  finally have rlow: "u \<le> r" by (simp add: u_def unitRoundoff_def)
  have rpos: "0 < r" using rlow ub(1) by linarith
  have rnorm: "2 powi (- 1022) \<le> r" using rlow ub(4) by linarith
  have r1000: "r \<le> 1000" using r1 by simp
  from roundToDouble_relative[OF rpos rnorm r1000, folded u_def]
  obtain y1 where y1: "roundToDouble r = Finite y1" "\<bar>y1 - r\<bar> \<le> r * u"
    by blast
  have ru1: "r * u \<le> 1 * u" using r1 ub(1) by (simp only: mult_le_cancel_right_pos)
  have ru2: "r * u \<le> r * (1 / 2)" using rpos ub(2) by (simp only: mult_le_cancel_left_pos)
  from y1(2) ru1 ru2 have y1low: "r / 2 \<le> y1" and y1up: "y1 \<le> 2 * r" and y1u: "\<bar>y1 - r\<bar> \<le> u"
    using rpos by linarith+
  have ypos: "0 < y1 * 100" using y1low rpos by linarith
  have ynorm: "2 powi (- 1022) \<le> y1 * 100" using ub(4) y1low rlow ub(1) by linarith
  have ysmall: "y1 * 100 \<le> 1000" using y1up r1 by linarith
  from roundToDouble_relative[OF ypos ynorm ysmall, folded u_def]
  obtain p where p: "roundToDouble (y1 * 100) = Finite p" "\<bar>p - y1 * 100\<bar> \<le> y1 * 100 * u"
    by blast
  have tne: "(of_int tot :: rat) \<noteq> 0" using tpos by simp
  have "ddiv (numberOf ok) (numberOf tot) = Finite y1"
    using y1(1) tne by (simp add: ddiv_def numberOf_def r_def)
  then have eq: "dmul (ddiv (numberOf ok) (numberOf tot)) (Finite 100) = Finite p"
    using p(1) by (simp add: dmul_def)
  have "y1 * 100 \<le> 200" using y1up r1 by linarith
  then have "y1 * 100 * u \<le> 200 * u"
    using ub(1) by (simp only: mult_le_cancel_right_pos)
  with p(2) have e2: "\<bar>p - y1 * 100\<bar> \<le> 200 * u" by linarith
  have "\<bar>p - 100 * r\<bar> \<le> 300 * u" using y1u e2 by linarith
  with ub(3) have err: "\<bar>p - 100 * r\<bar> \<le> 1 / 10 ^ 13" by linarith
  have "y1 * 100 * u \<le> y1 * 100 * (1 / 2)"
    using ypos ub(2) by (simp only: mult_le_cancel_left_pos)
  with p(2) ypos have "0 \<le> p" by linarith
  with eq err show ?thesis unfolding r_def by blast
qed

lemma fixedDigits2_value:
  assumes "0 \<le> p"
  shows "\<exists>n. fixedDigits2 p = decimal (n div 100) @ ''.'' @ [digitChar (n div 10), digitChar n]
           \<and> \<bar>of_nat n / 100 - p\<bar> \<le> 1 / 200"
proof -
  let ?n = "nat \<lfloor>p * 100 + 1 / 2\<rfloor>"
  have nn: "0 \<le> \<lfloor>p * 100 + 1 / 2\<rfloor>" using assms by simp
  then have "(of_nat ?n :: rat) = of_int \<lfloor>p * 100 + 1 / 2\<rfloor>" by simp
  moreover have "of_int \<lfloor>p * 100 + 1 / 2\<rfloor> \<le> p * 100 + 1 / 2"
    "p * 100 + 1 / 2 < of_int \<lfloor>p * 100 + 1 / 2\<rfloor> + 1" by linarith+
  ultimately have "\<bar>of_nat ?n / 100 - p\<bar> \<le> 1 / 200" by (simp add: abs_if field_simps)
  then show ?thesis unfolding fixedDigits2_def Let_def by blast
qed

lemma percent_rendering:
  assumes ok: "0 \<le> ok" "ok \<le> tot" and tot: "0 < tot" "tot \<le> 2 ^ 53"
  shows "\<exists>n. percent_fixed2 doubleOps ok tot
                = decimal (n div 100) @ ''.'' @ [digitChar (n div 10), digitChar n]
           \<and> \<bar>of_nat n / 100 - 100 * (of_int ok / of_int tot :: rat)\<bar> \<le> 1 / 200 + 1 / 10 ^ 13"
proof -
  from percent_value[OF assms] obtain p where
    p: "dmul (ddiv (numberOf ok) (numberOf tot)) (Finite 100) = Finite p" "0 \<le> p"
       "\<bar>p - 100 * (of_int ok / of_int tot)\<bar> \<le> 1 / 10 ^ 13" by blast
  from fixedDigits2_value[OF p(2)] obtain n where
    n: "fixedDigits2 p = decimal (n div 100) @ ''.'' @ [digitChar (n div 10), digitChar n]"
       "\<bar>of_nat n / 100 - p\<bar> \<le> 1 / 200" by blast
  have "percent_fixed2 doubleOps ok tot = fixedDigits2 p"
    using p(1,2) by (simp add: doubleOps_def toFixed2_def)
  moreover have "\<bar>of_nat n / 100 - 100 * (of_int ok / of_int tot :: rat)\<bar> \<le> 1 / 200 + 1 / 10 ^ 13"
    using n(2) p(3) by linarith
  ultimately show ?thesis using n(1) by auto
qed

lemma fixedDigits2_hundred: "fixedDigits2 100 = ''100.00''"
proof -
  have "\<lfloor>(100::rat) * 100 + 1 / 2\<rfloor> = 10000"
    by (rule floor_unique) simp_all
  then have n: "nat \<lfloor>(100::rat) * 100 + 1 / 2\<rfloor> = 10000" by simp
  have d: "decimal 100 = ''100''"
    by (subst decimal.simps, simp, subst decimal.simps, simp, subst decimal.simps, simp add: digitChar_def)
  show ?thesis
    unfolding fixedDigits2_def Let_def n by (simp add: d digitChar_def)
qed

lemma percent_all_successful: "percent_fixed2 doubleOps 1 1 = ''100.00''"
proof -
  have a: "roundToDouble 1 = Finite 1" using roundToDouble_of_int[of 1] by simp
  have b: "roundToDouble 100 = Finite 100" using roundToDouble_of_int[of 100] by simp
  show ?thesis
    by (simp add: doubleOps_def toFixed2_def dmul_def ddiv_def numberOf_def a b fixedDigits2_hundred)
qed


text \<open>The exponent is the one of the binade of the value, which fixes the rounding of a
  value from its binade and the integer nearest to its scaled significand.\<close>
lemma binaryExponent_gt:
  assumes "0 < x"
  shows "x < 2 powi (binaryExponent x + 1)"
proof -
  obtain p q where pq: "quotient_of x = (p, q)" by (cases "quotient_of x")
  then have q: "0 < q" by (rule quotient_of_denom_pos)
  have x: "x = of_int p / of_int q" using pq by (rule quotient_of_div)
  with assms q have p: "0 < p" by (simp add: zero_less_divide_iff)
  let ?e0 = "bitlen p - bitlen q"
  have ax: "\<bar>x\<bar> = x" using assms by simp
  show ?thesis
  proof (cases "2 powi ?e0 \<le> x")
    case False
    then show ?thesis by (simp add: binaryExponent_def ax pq)
  next
    case True
    have bp: "p < (2::int) ^ nat (bitlen p)" using bitlen_bounds[OF p] by simp
    have bq: "(2::int) ^ nat (bitlen q - 1) \<le> q" using bitlen_bounds[OF q] by simp
    have lq: "1 \<le> bitlen q" using q bitlen_eq_zero_iff[of q] bitlen_nonneg[of q] by linarith
    have "(of_int p :: rat) < of_int (2 ^ nat (bitlen p))" using bp by (simp only: of_int_less_iff)
    also have "\<dots> = 2 powi (bitlen p)"
      using bitlen_nonneg[of p] by (simp add: power_int_def)
    finally have 1: "(of_int p :: rat) < 2 powi (bitlen p)" .
    have "(2::rat) powi (bitlen q - 1) = of_int (2 ^ nat (bitlen q - 1))"
      using lq by (simp add: power_int_def)
    also have "\<dots> \<le> of_int q" using bq by (simp only: of_int_le_iff)
    finally have 2: "(2::rat) powi (bitlen q - 1) \<le> of_int q" .
    have "x = of_int p / of_int q" by (rule x)
    also have "\<dots> < 2 powi (bitlen p) / of_int q"
      using 1 q by (simp add: divide_strict_right_mono)
    also have "\<dots> \<le> 2 powi (bitlen p) / 2 powi (bitlen q - 1)"
      using q by (intro divide_left_mono[OF 2]) simp_all
    also have "\<dots> = 2 powi (?e0 + 1)"
      by (simp add: power_int_diff[symmetric] algebra_simps)
    finally have "x < 2 powi (?e0 + 1)" .
    with True show ?thesis by (simp add: binaryExponent_def ax pq)
  qed
qed

lemma binaryExponent_eq:
  assumes "2 powi e \<le> x" and "x < 2 powi (e + 1)"
  shows "binaryExponent x = e"
proof -
  have pos: "0 < x" using assms(1) by (rule less_le_trans[rotated]) simp
  let ?b = "binaryExponent x"
  have "\<not> e + 1 \<le> ?b"
  proof
    assume "e + 1 \<le> ?b"
    then have "(2::rat) powi (e + 1) \<le> 2 powi ?b" by (rule power_int_increasing) simp
    with binaryExponent_le[OF pos] assms(2) show False by linarith
  qed
  moreover have "\<not> ?b + 1 \<le> e"
  proof
    assume "?b + 1 \<le> e"
    then have "(2::rat) powi (?b + 1) \<le> 2 powi e" by (rule power_int_increasing) simp
    with binaryExponent_gt[OF pos] assms(1) show False by linarith
  qed
  ultimately show ?thesis by linarith
qed

lemma roundHalfEven_eq:
  assumes "\<bar>y - of_int m\<bar> < 1 / 2"
  shows "roundHalfEven y = m"
proof -
  have "\<bar>of_int (roundHalfEven y) - y\<bar> \<le> 1 / 2" by (rule roundHalfEven_near)
  with assms have "\<bar>(of_int (roundHalfEven y) :: rat) - of_int m\<bar> < 1" by linarith
  then have "\<bar>(of_int (roundHalfEven y - m) :: rat)\<bar> < 1" by simp
  then have "\<bar>roundHalfEven y - m\<bar> < 1" by (metis of_int_abs of_int_less_1_iff)
  then show ?thesis by linarith
qed

lemma roundToDouble_eq:
  assumes "2 powi e \<le> x" and "x < 2 powi (e + 1)" and "- 1022 \<le> e" and "e \<le> 1000"
    and "\<bar>x / 2 powi (e - 52) - of_int m\<bar> < 1 / 2"
  shows "roundToDouble x = Finite (of_int m * 2 powi (e - 52))"
proof -
  have pos: "0 < x" using assms(1) by (rule less_le_trans[rotated]) simp
  have b: "max (binaryExponent x) (- 1022) = e"
    using binaryExponent_eq[OF assms(1,2)] assms(3) by simp
  have m: "roundHalfEven (x / 2 powi (e - 52)) = m"
    using assms(5) by (rule roundHalfEven_eq)
  let ?ulp = "(2::rat) powi (e - 52)"
  have ulp: "0 < ?ulp" by simp
  have "\<bar>of_int m - x / ?ulp\<bar> < 1" using assms(5) by linarith
  then have "\<bar>of_int m * ?ulp - x\<bar> < ?ulp"
  proof -
    have "of_int m * ?ulp - x = (of_int m - x / ?ulp) * ?ulp" using ulp by (simp add: field_simps)
    then have "\<bar>of_int m * ?ulp - x\<bar> = \<bar>of_int m - x / ?ulp\<bar> * ?ulp" using ulp by (simp add: abs_mult)
    also have "\<dots> < 1 * ?ulp" using \<open>\<bar>of_int m - x / ?ulp\<bar> < 1\<close> ulp by (simp only: mult_less_cancel_right_pos)
    finally show ?thesis by simp
  qed
  moreover have "?ulp \<le> 2 powi e" by (rule power_int_increasing) simp_all
  moreover have "(2::rat) powi (e + 1) \<le> 2 powi 1001" using assms(4) by (intro power_int_increasing) simp_all
  moreover have "(2::rat) powi e \<le> 2 powi 1001" using assms(4) by (intro power_int_increasing) simp_all
  moreover have "(2::rat) * 2 powi 1001 < 2 powi 1024"
  proof -
    have "(2::rat) * 2 powi 1001 = 2 powi 1002" by (simp add: power_int_add)
    also have "\<dots> < 2 powi 1024" by (rule power_int_strict_increasing) simp_all
    finally show ?thesis .
  qed
  ultimately have fin: "\<not> 2 powi 1024 \<le> of_int m * ?ulp" "\<not> of_int m * ?ulp \<le> - (2 powi 1024)"
    using assms(2) pos by linarith+
  show ?thesis
    using pos fin unfolding roundToDouble_def Let_def b m by simp
qed

text \<open>The rendering is that of the doubles, not of the exact quotient: 23 of 160 is
  14.375 exactly, but the double nearest to 0.14375 times 100 rounds to the double just
  below 14.375, and \<open>toFixed(2)\<close> writes 14.37.\<close>
lemma percent_23_of_160: "percent_fixed2 doubleOps 23 160 = ''14.37''"
proof -
  have a: "roundToDouble (23 / 160) = Finite (of_int 5179139571476070 * 2 powi (- 3 - 52))"
    by (rule roundToDouble_eq) (simp_all add: power_int_minus field_simps)
  have y1: "(of_int 5179139571476070 :: rat) * 2 powi (- 3 - 52) = 2589569785738035 / 18014398509481984"
    by (simp add: power_int_minus field_simps)
  have b: "roundToDouble (64739244643450875 / 4503599627370496)
             = Finite (of_int 8092405580431359 * 2 powi (3 - 52))"
    by (rule roundToDouble_eq) (simp_all add: power_int_minus field_simps)
  have p: "(of_int 8092405580431359 :: rat) * 2 powi (3 - 52) = 8092405580431359 / 562949953421312"
    by (simp add: power_int_minus field_simps)
  have "\<lfloor>(8092405580431359 / 562949953421312 :: rat) * 100 + 1 / 2\<rfloor> = 1437"
    by (rule floor_unique) simp_all
  then have n: "nat \<lfloor>(8092405580431359 / 562949953421312 :: rat) * 100 + 1 / 2\<rfloor> = 1437" by simp
  have d: "decimal 14 = ''14''"
    by (subst decimal.simps, simp, subst decimal.simps, simp add: digitChar_def)
  have f: "fixedDigits2 (8092405580431359 / 562949953421312) = ''14.37''"
    unfolding fixedDigits2_def Let_def n by (simp add: d digitChar_def)
  show ?thesis
    by (simp add: doubleOps_def toFixed2_def dmul_def ddiv_def numberOf_def a y1 b p f)
qed


section \<open>Properties of the scheduler\<close>

lemma set_mapKeys_mapSet: "set (mapKeys (mapSet m k v)) = insert k (set (mapKeys m))"
  by (simp add: mapKeys_def mapSet_def dom_update)

lemma set_mapKeys_mapDelete: "set (mapKeys (mapDelete m k)) = set (mapKeys m) - {k}"
  by (induction m) (auto simp: mapKeys_def mapDelete_def)

lemma distinct_mapSet: "distinct (mapKeys m) \<Longrightarrow> distinct (mapKeys (mapSet m k v))"
  by (simp add: mapKeys_def mapSet_def distinct_update)

lemma distinct_mapDelete: "distinct (mapKeys m) \<Longrightarrow> distinct (mapKeys (mapDelete m k))"
  by (simp add: mapKeys_def mapDelete_def distinct_delete)

lemma mapHas_iff: "mapHas m k \<longleftrightarrow> k \<in> set (mapKeys m)"
  by (simp add: mapHas_def mapKeys_def map_of_eq_None_iff)

lemma scheduleJob_frame:
  "executionQueue (scheduleJob validate s job) = executionQueue s"
  "stats (scheduleJob validate s job) = stats s"
  "isRunning (scheduleJob validate s job) = isRunning s"
  by (simp_all add: scheduleJob_def)

lemma unscheduleJob_frame:
  "executionQueue (unscheduleJob s k) = executionQueue s"
  "stats (unscheduleJob s k) = stats s"
  "isRunning (unscheduleJob s k) = isRunning s"
  by (simp_all add: unscheduleJob_def)

lemma scheduleJob_invariant: "schedulerInvariant s \<Longrightarrow> schedulerInvariant (scheduleJob validate s job)"
  by (simp add: schedulerInvariant_def scheduleJob_def distinct_mapSet)

lemma unscheduleJob_invariant: "schedulerInvariant s \<Longrightarrow> schedulerInvariant (unscheduleJob s k)"
  by (simp add: schedulerInvariant_def unscheduleJob_def distinct_mapDelete)

lemma fold_schedule_frame:
  "executionQueue (fold (\<lambda>job st. if P job then scheduleJob validate st job else st) js s) = executionQueue s
   \<and> stats (fold (\<lambda>job st. if P job then scheduleJob validate st job else st) js s) = stats s
   \<and> isRunning (fold (\<lambda>job st. if P job then scheduleJob validate st job else st) js s) = isRunning s"
  by (induction js arbitrary: s) (simp_all add: scheduleJob_frame)

lemma fold_unschedule_frame:
  "executionQueue (fold (\<lambda>k st. if P k then unscheduleJob st k else st) ks s) = executionQueue s
   \<and> stats (fold (\<lambda>k st. if P k then unscheduleJob st k else st) ks s) = stats s
   \<and> isRunning (fold (\<lambda>k st. if P k then unscheduleJob st k else st) ks s) = isRunning s"
  by (induction ks arbitrary: s) (simp_all add: unscheduleJob_frame)

lemma fold_schedule_invariant:
  "schedulerInvariant s \<Longrightarrow>
   schedulerInvariant (fold (\<lambda>job st. if P job then scheduleJob validate st job else st) js s)"
  by (induction js arbitrary: s) (simp_all add: scheduleJob_invariant)

lemma fold_unschedule_invariant:
  "schedulerInvariant s \<Longrightarrow>
   schedulerInvariant (fold (\<lambda>k st. if P k then unscheduleJob st k else st) ks s)"
  by (induction ks arbitrary: s) (simp_all add: unscheduleJob_invariant)

lemma syncJobs_frame:
  "executionQueue (syncJobs validate s found) = executionQueue s"
  "stats (syncJobs validate s found) = stats s"
  "isRunning (syncJobs validate s found) = isRunning s"
  by (simp_all add: syncJobs_def Let_def fold_schedule_frame fold_unschedule_frame split: sum.splits)

lemma syncJobs_invariant: "schedulerInvariant s \<Longrightarrow> schedulerInvariant (syncJobs validate s found)"
  by (simp add: syncJobs_def Let_def fold_schedule_invariant fold_unschedule_invariant split: sum.splits)

lemma start_invariant: "schedulerInvariant s \<Longrightarrow> schedulerInvariant (fst (start validate s found))"
proof -
  assume inv: "schedulerInvariant s"
  have a: "schedulerInvariant (s\<lparr>isRunning := b\<rparr>)" for b
    using inv by (simp add: schedulerInvariant_def)
  have "schedulerInvariant (fold (\<lambda>job st. if True then scheduleJob validate st job else st) js (s\<lparr>isRunning := True\<rparr>))" for js
    by (rule fold_schedule_invariant[OF a])
  then show ?thesis
    using inv a by (simp add: start_def split: sum.splits)
qed

lemma stop_invariant: "schedulerInvariant s \<Longrightarrow> schedulerInvariant (stop s)"
  by (simp add: schedulerInvariant_def stop_def mapKeys_def)

lemma registerExecution_invariant:
  "schedulerInvariant s \<Longrightarrow> schedulerInvariant (registerExecution rn s job)"
  by (simp add: schedulerInvariant_def registerExecution_def distinct_mapSet)

lemma updateServiceStats_invariant:
  "schedulerInvariant s \<Longrightarrow> schedulerInvariant (updateServiceStats fl s d b)"
  by (simp add: schedulerInvariant_def updateServiceStats_def Let_def)

lemma unregisterExecution_invariant:
  "schedulerInvariant s \<Longrightarrow> schedulerInvariant (unregisterExecution s job)"
  by (simp add: schedulerInvariant_def unregisterExecution_def distinct_mapDelete)

lemma assignExecutionId_invariant:
  "schedulerInvariant s \<Longrightarrow> schedulerInvariant (assignExecutionId s job e)"
  by (simp add: schedulerInvariant_def assignExecutionId_def distinct_mapSet split: option.splits)

lemma executeJobCatch_invariant:
  "schedulerInvariant s \<Longrightarrow> schedulerInvariant (fst (fst (executeJobCatch fl pg rn s db job eid msg)))"
  by (simp add: executeJobCatch_def Let_def unregisterExecution_invariant updateServiceStats_invariant
           split: sum.splits option.splits)

lemma executeJobRest_invariant:
  "schedulerInvariant s \<Longrightarrow>
   schedulerInvariant (fst (fst (executeJobRest fl validate tz pg rn s db job)))"
  by (simp add: executeJobRest_def Let_def executeJobCatch_invariant assignExecutionId_invariant
        unregisterExecution_invariant updateServiceStats_invariant
      split: sum.splits prod.splits)

lemma newScheduler_invariant: "schedulerInvariant (newScheduler fl)"
  by (simp add: schedulerInvariant_def newScheduler_def mapKeys_def)

text \<open>A call of \<open>executeJob\<close> is its part up to the first \<open>await\<close> followed, when the guard
  lets it pass, by the rest on the state with the registration.\<close>
lemma executeJob_enter:
  "executeJob fl validate tz pg rn s db job =
     (case enterExecuteJob rn s job of
        None \<Rightarrow> ((s, db), None)
      | Some s1 \<Rightarrow> executeJobRest fl validate tz pg rn s1 db job)"
  by (simp add: executeJob_def enterExecuteJob_def)

lemma start_frame: "executionQueue (fst (start validate s found)) = executionQueue s"
proof -
  have "executionQueue (fold (\<lambda>job st. if True then scheduleJob validate st job else st) js s0)
          = executionQueue s0" for js s0
    using fold_schedule_frame[of "\<lambda>_. True" validate js s0] by blast
  then have "executionQueue (fold (\<lambda>job st. scheduleJob validate st job) js s0)
          = executionQueue s0" for js s0
    by simp
  from this[of _ "s\<lparr>isRunning := True\<rparr>"] show ?thesis
    by (simp add: start_def split: sum.splits)
qed

lemma stop_frame: "executionQueue (stop s) = executionQueue s"
  by (simp add: stop_def)

lemma updateServiceStats_queue: "executionQueue (updateServiceStats fl s d b) = executionQueue s"
  by (simp add: updateServiceStats_def Let_def)

lemma assignExecutionId_keys:
  "set (mapKeys (executionQueue (assignExecutionId s job e))) = set (mapKeys (executionQueue s))"
proof (cases "map_of (executionQueue s) (id_job job)")
  case None
  then show ?thesis by (simp add: assignExecutionId_def)
next
  case (Some x)
  then have "id_job job \<in> set (mapKeys (executionQueue s))"
    by (metis mapHas_def mapHas_iff option.distinct(1))
  with Some show ?thesis
    by (auto simp: assignExecutionId_def set_mapKeys_mapSet)
qed

lemma unregisterExecution_keys:
  "set (mapKeys (executionQueue (unregisterExecution s job)))
     = set (mapKeys (executionQueue s)) - {id_job job}"
  by (simp add: unregisterExecution_def set_mapKeys_mapDelete)

lemma executeJobCatch_keys:
  "set (mapKeys (executionQueue (fst (fst (executeJobCatch fl pg rn s db job eid msg)))))
     = set (mapKeys (executionQueue s)) - {id_job job}"
  by (simp add: executeJobCatch_def Let_def unregisterExecution_keys updateServiceStats_queue
        unregisterExecution_def set_mapKeys_mapDelete
      split: sum.splits option.splits)

lemma executeJobRest_keys:
  "set (mapKeys (executionQueue (fst (fst (executeJobRest fl validate tz pg rn s db job)))))
     = set (mapKeys (executionQueue s)) - {id_job job}"
  by (simp add: executeJobRest_def Let_def executeJobCatch_keys assignExecutionId_keys
        updateServiceStats_queue unregisterExecution_def set_mapKeys_mapDelete
      split: sum.splits prod.splits)

text \<open>The calls in flight and the keys of \<open>executionQueue\<close> stay in step: the guard is what
  keeps a job id from joining the calls in flight a second time.\<close>
lemma reachable_invariant:
  "reachable fl validate tz pg st \<Longrightarrow> inFlightInvariant (fst st) (snd (snd st))"
proof (induction rule: reachable.induct)
  case (init db)
  show ?case
    by (simp add: inFlightInvariant_def newScheduler_invariant) (simp add: newScheduler_def mapKeys_def)
next
  case (store s db calls db')
  then show ?case by simp
next
  case (started s db calls found)
  then show ?case by (simp add: inFlightInvariant_def start_invariant start_frame)
next
  case (stopped s db calls)
  then show ?case by (simp add: inFlightInvariant_def stop_invariant stop_frame)
next
  case (scheduled s db calls job)
  then show ?case by (simp add: inFlightInvariant_def scheduleJob_invariant scheduleJob_frame)
next
  case (unscheduled s db calls jobIdent)
  then show ?case by (simp add: inFlightInvariant_def unscheduleJob_invariant unscheduleJob_frame)
next
  case (synced s db calls found)
  then show ?case by (simp add: inFlightInvariant_def syncJobs_invariant syncJobs_frame)
next
  case (skipped s db calls rn job)
  then show ?case by simp
next
  case (began s db calls rn job s1)
  from began.hyps(2) have guard: "\<not> mapHas (executionQueue s) (id_job job)"
    and s1: "s1 = registerExecution rn s job"
    by (simp_all add: enterExecuteJob_def split: if_splits)
  from began.IH have inv: "schedulerInvariant s" "distinct calls"
    "set calls = set (mapKeys (executionQueue s))"
    by (simp_all add: inFlightInvariant_def)
  from guard inv(3) have fresh: "id_job job \<notin> set calls" by (simp add: mapHas_iff)
  have "set (mapKeys (executionQueue s1)) = insert (id_job job) (set (mapKeys (executionQueue s)))"
    by (simp add: s1 registerExecution_def set_mapKeys_mapSet)
  with inv fresh show ?case
    by (simp add: inFlightInvariant_def s1 registerExecution_invariant)
next
  case (finished s db calls job rn s' db' err)
  from finished.IH have inv: "schedulerInvariant s" "distinct calls"
    "set calls = set (mapKeys (executionQueue s))"
    by (simp_all add: inFlightInvariant_def)
  from finished.hyps(3) have s': "s' = fst (fst (executeJobRest fl validate tz pg rn s db job))"
    by simp
  have "schedulerInvariant s'"
    unfolding s' by (rule executeJobRest_invariant[OF inv(1)])
  moreover have "set (mapKeys (executionQueue s')) = set calls - {id_job job}"
    unfolding s' by (simp add: executeJobRest_keys inv(3))
  moreover have "set (remove1 (id_job job) calls) = set calls - {id_job job}"
    using inv(2) by simp
  ultimately show ?case using inv(2) by (simp add: inFlightInvariant_def)
qed

lemma findById_id: "findById db i = Some job \<Longrightarrow> id_job job = Str i"
  apply (simp add: findById_def Let_def firstJob_def split: if_splits list.splits)
  apply (auto simp: Job_new_def rowObject_def getProp_def filter_eq_Cons_iff)
  done

text \<open>
  C2. When an execution record for the job's id is already in \<open>executionQueue\<close>, a further
  call of \<open>executeJob\<close> returns with the service and the store exactly as they were: no
  execution row, no statistics, no change of the state; the same holds for the call made
  by the manual trigger, whose job is read from the store. In every state the service
  reaches, no job id occurs twice among the calls of \<open>executeJob\<close> that are in flight (each
  call counted from its suspension at the first \<open>await\<close> to the end of its \<open>finally\<close> block),
  the ids in flight are exactly the keys of \<open>executionQueue\<close>, each held once, and a
  further call for a job in flight is turned away by the guard.
\<close>
theorem executeJob_single_flight:
  "(mapHas (executionQueue s) (id_job job) \<longrightarrow>
      executeJob fl validate tz pg rn s db job = ((s, db), None))
   \<and> (mapHas (executionQueue s) (Str i) \<and> findById db i \<noteq> None \<longrightarrow>
      triggerJob fl validate tz pg rn s db i = Some (s, db))
   \<and> (reachable fl validate tz pg (s, db, calls) \<longrightarrow>
        distinct calls
        \<and> set calls = set (mapKeys (executionQueue s))
        \<and> distinct (mapKeys (executionQueue s))
        \<and> (id_job job \<in> set calls \<longrightarrow> enterExecuteJob rn s job = None))"
proof (intro conjI impI)
  assume "mapHas (executionQueue s) (id_job job)"
  then show "executeJob fl validate tz pg rn s db job = ((s, db), None)"
    by (simp add: executeJob_def)
next
  assume a: "mapHas (executionQueue s) (Str i) \<and> findById db i \<noteq> None"
  then obtain j where j: "findById db i = Some j" by auto
  with a have "mapHas (executionQueue s) (id_job j)" by (simp add: findById_id)
  with j show "triggerJob fl validate tz pg rn s db i = Some (s, db)"
    by (simp add: triggerJob_def executeJob_def)
next
  assume r: "reachable fl validate tz pg (s, db, calls)"
  from reachable_invariant[OF r] have inv: "inFlightInvariant s calls" by simp
  then show "distinct calls" by (simp add: inFlightInvariant_def)
  from inv show keys: "set calls = set (mapKeys (executionQueue s))"
    by (simp add: inFlightInvariant_def)
  from inv show "distinct (mapKeys (executionQueue s))"
    by (simp add: inFlightInvariant_def schedulerInvariant_def)
  assume "id_job job \<in> set calls"
  with keys show "enterExecuteJob rn s job = None"
    by (simp add: enterExecuteJob_def mapHas_iff)
qed

theorem executeJob_single_flight_witness:
  "mapHas (executionQueue runningState) (id_job exampleJob)
   \<and> executeJob doubleOps cronPattern 0 utcSession exampleRun runningState exampleDb exampleJob
       = ((runningState, exampleDb), None)
   \<and> mapHas (executionQueue runningState) (Str ''job-1'') \<and> findById exampleDb ''job-1'' \<noteq> None
   \<and> triggerJob doubleOps cronPattern 0 utcSession exampleRun runningState exampleDb ''job-1''
       = Some (runningState, exampleDb)
   \<and> reachable doubleOps cronPattern 0 utcSession (runningState, exampleDb, [Str ''job-1''])
   \<and> id_job exampleJob = Str ''job-1''
   \<and> enterExecuteJob exampleRun runningState exampleJob = None"
proof -
  have idj: "id_job exampleJob = Str ''job-1''"
    by (simp add: exampleJob_def firstJob_def Job_new_def rowObject_def getProp_def exampleRow_def)
  have h1: "mapHas (executionQueue runningState) (id_job exampleJob)"
    by (simp add: runningState_def registerExecution_def mapHas_def mapSet_def newScheduler_def)
  have h2: "findById exampleDb ''job-1'' \<noteq> None"
    by (simp add: findById_def exampleDb_def exampleRow_def)
  have "enterExecuteJob exampleRun (newScheduler doubleOps) exampleJob = Some runningState"
    by (simp add: enterExecuteJob_def runningState_def newScheduler_def mapHas_def)
  from reachable.began[OF reachable.init this]
  have h3: "reachable doubleOps cronPattern 0 utcSession (runningState, exampleDb, [Str ''job-1''])"
    by (simp add: idj)
  from h1 idj have h1': "mapHas (executionQueue runningState) (Str ''job-1'')" by simp
  from executeJob_single_flight[of runningState exampleJob doubleOps cronPattern 0 utcSession
         exampleRun exampleDb "''job-1''" "[Str ''job-1'']"] h1 h1' h2 h3 idj
  show ?thesis by simp
qed

text \<open>
  C9, as stated, fails before the first execution: \<open>successRate\<close> is then the number \<open>0\<close>,
  not a string.
\<close>
theorem getStats_no_execution_counterexample:
  "successRate (getStats doubleOps (newScheduler doubleOps)) = RateNumber 0"
  by (simp add: getStats_def newScheduler_def)

text \<open>
  C9, amended. In every state the service reaches, \<open>successRate\<close> is the number \<open>0\<close> while
  no execution has been counted, and afterwards the string
  \<open>((successfulExecutions / totalExecutions) * 100).toFixed(2)\<close> of the double arithmetic:
  digits, a point and two digits, which denote the multiple of \<open>0.01\<close> nearest to the
  percentage of successful executions (within \<open>0.005\<close> of it, up to the rounding of the
  two double operations, which is below \<open>10^-13\<close>); this for counters that a double holds
  exactly, up to \<open>2^53\<close>. \<open>activeJobs\<close> and \<open>runningExecutions\<close> are the sizes of the two
  maps, that is the numbers of job ids they hold, and \<open>runningExecutions\<close> is the number
  of calls of \<open>executeJob\<close> in flight.
\<close>
theorem getStats_fields:
  "successRate (getStats doubleOps s) =
     (if totalExecutions (stats s) > 0
      then RateString (toFixed2 (dmul (ddiv (numberOf (successfulExecutions (stats s)))
                                          (numberOf (totalExecutions (stats s))))
                                    (Finite 100)))
      else RateNumber 0)
   \<and> activeJobs (getStats doubleOps s) = mapSize (activeTasks s)
   \<and> runningExecutions (getStats doubleOps s) = mapSize (executionQueue s)
   \<and> (reachable doubleOps validate tz pg (s, db, calls) \<longrightarrow>
        mapSize (activeTasks s) = int (card (set (mapKeys (activeTasks s))))
        \<and> mapSize (executionQueue s) = int (card (set (mapKeys (executionQueue s))))
        \<and> mapSize (executionQueue s) = int (length calls)
        \<and> (totalExecutions (stats s) = 0 \<longrightarrow> successRate (getStats doubleOps s) = RateNumber 0)
        \<and> (0 < totalExecutions (stats s) \<and> totalExecutions (stats s) \<le> 2 ^ 53 \<longrightarrow>
             (\<exists>n. successRate (getStats doubleOps s)
                     = RateString (decimal (n div 100) @ ''.'' @ [digitChar (n div 10), digitChar n])
                 \<and> list_all isDigit (decimal (n div 100))
                 \<and> isDigit (digitChar (n div 10)) \<and> isDigit (digitChar n)
                 \<and> \<bar>of_nat n / 100
                      - 100 * (of_int (successfulExecutions (stats s))
                                / of_int (totalExecutions (stats s)) :: rat)\<bar>
                     \<le> 1 / 200 + 1 / 10 ^ 13)))"
proof -
  have rate: "successRate (getStats doubleOps s) =
     (if totalExecutions (stats s) > 0
      then RateString (percent_fixed2 doubleOps (successfulExecutions (stats s)) (totalExecutions (stats s)))
      else RateNumber 0)"
    by (simp add: getStats_def)
  have p1: "successRate (getStats doubleOps s) =
     (if totalExecutions (stats s) > 0
      then RateString (toFixed2 (dmul (ddiv (numberOf (successfulExecutions (stats s)))
                                          (numberOf (totalExecutions (stats s))))
                                    (Finite 100)))
      else RateNumber 0)"
    unfolding rate by (simp add: doubleOps_def)
  have p2: "activeJobs (getStats doubleOps s) = mapSize (activeTasks s)"
    and p3: "runningExecutions (getStats doubleOps s) = mapSize (executionQueue s)"
    by (simp_all add: getStats_def)
  have p4: "mapSize (activeTasks s) = int (card (set (mapKeys (activeTasks s))))
        \<and> mapSize (executionQueue s) = int (card (set (mapKeys (executionQueue s))))
        \<and> mapSize (executionQueue s) = int (length calls)
        \<and> (totalExecutions (stats s) = 0 \<longrightarrow> successRate (getStats doubleOps s) = RateNumber 0)
        \<and> (0 < totalExecutions (stats s) \<and> totalExecutions (stats s) \<le> 2 ^ 53 \<longrightarrow>
             (\<exists>n. successRate (getStats doubleOps s)
                     = RateString (decimal (n div 100) @ ''.'' @ [digitChar (n div 10), digitChar n])
                 \<and> list_all isDigit (decimal (n div 100))
                 \<and> isDigit (digitChar (n div 10)) \<and> isDigit (digitChar n)
                 \<and> \<bar>of_nat n / 100
                      - 100 * (of_int (successfulExecutions (stats s))
                                / of_int (totalExecutions (stats s)) :: rat)\<bar>
                     \<le> 1 / 200 + 1 / 10 ^ 13))"
    if r: "reachable doubleOps validate tz pg (s, db, calls)"
  proof -
    from reachable_invariant[OF r] have fl: "inFlightInvariant s calls" by simp
    then have inv: "schedulerInvariant s" and dc: "distinct calls"
      and keys: "set calls = set (mapKeys (executionQueue s))"
      by (simp_all add: inFlightInvariant_def)
    from inv have la: "length (activeTasks s) = card (set (mapKeys (activeTasks s)))"
      and lq: "length (executionQueue s) = card (set (mapKeys (executionQueue s)))"
      using distinct_card[of "mapKeys (activeTasks s)"] distinct_card[of "mapKeys (executionQueue s)"]
      by (simp_all add: schedulerInvariant_def mapKeys_def)
    from dc keys lq have lc: "length (executionQueue s) = length calls"
      using distinct_card[of calls] by simp
    have zero: "successRate (getStats doubleOps s) = RateNumber 0" if "totalExecutions (stats s) = 0"
      using that by (simp add: rate)
    have digits: "\<exists>n. successRate (getStats doubleOps s)
                     = RateString (decimal (n div 100) @ ''.'' @ [digitChar (n div 10), digitChar n])
                 \<and> list_all isDigit (decimal (n div 100))
                 \<and> isDigit (digitChar (n div 10)) \<and> isDigit (digitChar n)
                 \<and> \<bar>of_nat n / 100
                      - 100 * (of_int (successfulExecutions (stats s))
                                / of_int (totalExecutions (stats s)) :: rat)\<bar>
                     \<le> 1 / 200 + 1 / 10 ^ 13"
      if t: "0 < totalExecutions (stats s) \<and> totalExecutions (stats s) \<le> 2 ^ 53"
    proof -
      from inv have ok: "0 \<le> successfulExecutions (stats s)"
        "successfulExecutions (stats s) \<le> totalExecutions (stats s)"
        by (simp_all add: schedulerInvariant_def)
      from t have t1: "0 < totalExecutions (stats s)" and t2: "totalExecutions (stats s) \<le> 2 ^ 53"
        by simp_all
      from percent_rendering[OF ok t1 t2] obtain n where
        n: "percent_fixed2 doubleOps (successfulExecutions (stats s)) (totalExecutions (stats s))
              = decimal (n div 100) @ ''.'' @ [digitChar (n div 10), digitChar n]"
           "\<bar>of_nat n / 100
                      - 100 * (of_int (successfulExecutions (stats s))
                                / of_int (totalExecutions (stats s)) :: rat)\<bar>
                     \<le> 1 / 200 + 1 / 10 ^ 13"
        by blast
      from n(1) t1 have "successRate (getStats doubleOps s)
                     = RateString (decimal (n div 100) @ ''.'' @ [digitChar (n div 10), digitChar n])"
        by (simp add: rate)
      with n(2) decimal_digits[of "n div 100"] isDigit_digitChar[of "n div 10"] isDigit_digitChar[of n]
      show ?thesis by blast
    qed
    from la lq lc zero digits show ?thesis by (simp add: mapSize_def)
  qed
  from p1 p2 p3 p4 show ?thesis by blast
qed

text \<open>The outcome of the quick run of the stored job, whatever the arithmetic.\<close>
lemma quick_run_outcome:
  "totalExecutions (stats (fst (fst (executeJobRest fl cronPattern 0 utcSession quickRun
      (registerExecution exampleRun (newScheduler fl) exampleJob) exampleDb exampleJob)))) = 1"
  "successfulExecutions (stats (fst (fst (executeJobRest fl cronPattern 0 utcSession quickRun
      (registerExecution exampleRun (newScheduler fl) exampleJob) exampleDb exampleJob)))) = 1"
  "activeTasks (fst (fst (executeJobRest fl cronPattern 0 utcSession quickRun
      (registerExecution exampleRun (newScheduler fl) exampleJob) exampleDb exampleJob))) = []"
  "executionQueue (fst (fst (executeJobRest fl cronPattern 0 utcSession quickRun
      (registerExecution exampleRun (newScheduler fl) exampleJob) exampleDb exampleJob))) = []"
  by code_simp+

theorem getStats_fields_witness:
  "reachable doubleOps cronPattern 0 utcSession (runningState, exampleDb, [Str ''job-1''])
   \<and> totalExecutions (stats runningState) = 0
   \<and> successRate (getStats doubleOps runningState) = RateNumber 0
   \<and> runningExecutions (getStats doubleOps runningState) = 1
   \<and> reachable doubleOps cronPattern 0 utcSession (finishedState, exampleDb, [])
   \<and> 0 < totalExecutions (stats finishedState) \<and> totalExecutions (stats finishedState) \<le> 2 ^ 53
   \<and> successRate (getStats doubleOps finishedState) = RateString ''100.00''
   \<and> activeJobs (getStats doubleOps finishedState) = 0
   \<and> runningExecutions (getStats doubleOps finishedState) = 0"
proof -
  have idj: "id_job exampleJob = Str ''job-1''"
    by (simp add: exampleJob_def firstJob_def Job_new_def rowObject_def getProp_def exampleRow_def)
  have "enterExecuteJob exampleRun (newScheduler doubleOps) exampleJob = Some runningState"
    by (simp add: enterExecuteJob_def runningState_def newScheduler_def mapHas_def)
  from reachable.began[OF reachable.init this]
  have h3: "reachable doubleOps cronPattern 0 utcSession (runningState, exampleDb, [Str ''job-1''])"
    by (simp add: idj)
  have q: "length (executionQueue runningState) = 1" "totalExecutions (stats runningState) = 0"
    by (simp_all add: runningState_def registerExecution_def mapSet_def newScheduler_def)
  obtain db' err where
    rest: "executeJobRest doubleOps cronPattern 0 utcSession quickRun runningState exampleDb exampleJob
             = ((finishedState, db'), err)"
    unfolding finishedState_def
    by (metis prod.collapse)
  have "id_job exampleJob \<in> set [Str ''job-1'']" by (simp add: idj)
  from reachable.finished[OF h3 this rest]
  have "reachable doubleOps cronPattern 0 utcSession (finishedState, db', [])"
    by (simp add: idj)
  then have h4: "reachable doubleOps cronPattern 0 utcSession (finishedState, exampleDb, [])"
    by (rule reachable.store)
  have f: "totalExecutions (stats finishedState) = 1" "successfulExecutions (stats finishedState) = 1"
    "activeTasks finishedState = []" "executionQueue finishedState = []"
    unfolding finishedState_def runningState_def by (rule quick_run_outcome)+
  have hundred: "toFixed2 (dmul (ddiv (numberOf 1) (numberOf 1)) (Finite 100)) = ''100.00''"
    using percent_all_successful by (simp add: doubleOps_def)
  from getStats_fields[of runningState cronPattern 0 utcSession exampleDb "[Str ''job-1'']"]
       getStats_fields[of finishedState cronPattern 0 utcSession exampleDb "[]"] h3 h4 q f hundred
  show ?thesis by (simp add: mapSize_def)
qed

text \<open>No call of \<open>executeJob\<close> writes the status \<open>timeout\<close>: a table without it stays without it.\<close>
lemma updateJobStatsOf_executions:
  "updateJobStatsOf pg a b db k ok = Inr db' \<Longrightarrow> job_executions db' = job_executions db"
  by (auto simp: updateJobStatsOf_def updateJobStats_def bindE_def split: jsval.splits sum.splits prod.splits)

lemma updateNextRunTime_executions:
  "job_executions (updateNextRunTime validate tz pg a b db job) = job_executions db"
  by (simp add: updateNextRunTime_def Let_def split: jsval.splits sum.splits prod.splits)

lemma updateExecutionRecord_statuses:
  assumes "updateExecutionRecord db eid st d m out now = Inr db'" and "st \<noteq> ''timeout''"
    and "\<forall>e \<in> set (job_executions db). status e \<noteq> ''timeout''"
  shows "\<forall>e \<in> set (job_executions db'). status e \<noteq> ''timeout''"
  using assms by (auto simp: updateExecutionRecord_def split: if_splits)

lemma createExecutionRecord_statuses:
  assumes "createExecutionRecord db k ''running'' now fresh = Inr (db', eid)"
    and "\<forall>e \<in> set (job_executions db). status e \<noteq> ''timeout''"
  shows "\<forall>e \<in> set (job_executions db'). status e \<noteq> ''timeout''"
  using assms by (auto simp: createExecutionRecord_def split: jsval.splits if_splits)

lemma executeJobCatch_statuses:
  assumes "\<forall>e \<in> set (job_executions db). status e \<noteq> ''timeout''"
  shows "\<forall>e \<in> set (job_executions (snd (fst (executeJobCatch fl pg rn s db job eid msg)))). status e \<noteq> ''timeout''"
proof (cases eid)
  case None
  with assms show ?thesis
    by (auto simp: executeJobCatch_def Let_def dest: updateJobStatsOf_executions split: sum.splits)
next
  case (Some x)
  show ?thesis
  proof (cases "updateExecutionRecord db x ''failed'' (t_catch rn - t_start rn) (Some msg) None (t_exec_failed rn)")
    case (Inl e)
    with Some assms show ?thesis by (simp add: executeJobCatch_def Let_def)
  next
    case (Inr db1)
    from updateExecutionRecord_statuses[OF Inr _ assms]
    have "\<forall>e \<in> set (job_executions db1). status e \<noteq> ''timeout''" by simp
    with Some Inr show ?thesis
      by (auto simp: executeJobCatch_def Let_def dest: updateJobStatsOf_executions split: sum.splits)
  qed
qed

lemma executeJob_never_writes_timeout:
  assumes "\<forall>e \<in> set (job_executions db). status e \<noteq> ''timeout''"
  shows "\<forall>e \<in> set (job_executions (snd (fst (executeJob fl validate tz pg rn s db job)))). status e \<noteq> ''timeout''"
proof (cases "mapHas (executionQueue s) (id_job job)")
  case True
  with assms show ?thesis by (simp add: executeJob_def)
next
  case False
  let ?s1 = "registerExecution rn s job"
  show ?thesis
  proof (cases "createExecutionRecord db (id_job job) ''running'' (t_insert rn) (new_id rn)")
    case (Inl e)
    with False executeJobCatch_statuses[OF assms] show ?thesis
      by (simp add: executeJob_def executeJobRest_def)
  next
    case (Inr p)
    obtain db1 eid where p: "p = (db1, eid)" by (cases p)
    from createExecutionRecord_statuses[OF Inr[unfolded p] assms]
    have s1: "\<forall>e \<in> set (job_executions db1). status e \<noteq> ''timeout''" .
    show ?thesis
    proof (cases "performJobExecution job (work_ms rn) (t_executed rn)")
      case (Inl msg)
      with False Inr p executeJobCatch_statuses[OF s1] show ?thesis
        by (simp add: executeJob_def executeJobRest_def Let_def)
    next
      case (Inr result)
      note perf = this
      show ?thesis
      proof (cases "updateExecutionRecord db1 eid ''completed'' (t_end rn - t_start rn) None (Some result) (t_exec_update rn)")
        case (Inl e)
        with False \<open>createExecutionRecord db (id_job job) ''running'' (t_insert rn) (new_id rn) = Inr p\<close>
             p perf executeJobCatch_statuses[OF s1] show ?thesis
          by (simp add: executeJob_def executeJobRest_def Let_def)
      next
        case (Inr db2)
        from updateExecutionRecord_statuses[OF Inr _ s1]
        have s2: "\<forall>e \<in> set (job_executions db2). status e \<noteq> ''timeout''" by simp
        show ?thesis
        proof (cases "updateJobStatsOf pg (t_stats_js rn) (t_stats_db rn) db2 (id_job job) True")
          case (Inl e)
          with False \<open>createExecutionRecord db (id_job job) ''running'' (t_insert rn) (new_id rn) = Inr p\<close>
             p perf Inr executeJobCatch_statuses[OF s2] show ?thesis
            by (simp add: executeJob_def executeJobRest_def Let_def)
        next
          case (Inr db3)
          from updateJobStatsOf_executions[OF Inr] s2
          have "\<forall>e \<in> set (job_executions db3). status e \<noteq> ''timeout''" by simp
          with False \<open>createExecutionRecord db (id_job job) ''running'' (t_insert rn) (new_id rn) = Inr p\<close>
             p perf \<open>updateExecutionRecord db1 eid ''completed'' (t_end rn - t_start rn) None (Some result) (t_exec_update rn) = Inr db2\<close>
             Inr show ?thesis
            by (simp add: executeJob_def executeJobRest_def Let_def updateNextRunTime_executions)
        qed
      qed
    qed
  qed
qed

text \<open>The execution row of the run that times out, whatever the arithmetic of the
  statistics.\<close>
lemma timeout_trace:
  "map (\<lambda>e. (status e, error_message e, completed_at e, duration_ms e))
         (job_executions (snd (fst (executeJob fl cronPattern 0 utcSession exampleRun
                                      (newScheduler fl) exampleDb exampleJob))))
       = [(''failed'', Some ''Job execution timeout'', Some 11003, Some 1002)]"
  by code_simp

text \<open>
  C3 fails: a job whose executor passes \<open>timeout_ms\<close> (here 1000 ms against 2000 ms of work)
  is rejected with the message of the timeout, and the \<open>catch\<close> block of \<open>executeJob\<close> writes
  the execution row with the status \<open>failed\<close>, the message, \<open>completed_at\<close> and \<open>duration_ms\<close>.
\<close>
theorem timeout_is_recorded_as_failed:
  "performJobExecution exampleJob (work_ms exampleRun) (t_executed exampleRun)
     = Inl ''Job execution timeout''
   \<and> map (\<lambda>e. (status e, error_message e, completed_at e, duration_ms e))
         (job_executions (snd (fst (executeJob doubleOps cronPattern 0 utcSession exampleRun
                                      (newScheduler doubleOps) exampleDb exampleJob))))
       = [(''failed'', Some ''Job execution timeout'', Some 11003, Some 1002)]"
proof -
  have "performJobExecution exampleJob (work_ms exampleRun) (t_executed exampleRun)
          = Inl ''Job execution timeout''"
    by code_simp
  with timeout_trace[of doubleOps] show ?thesis by (rule conjI[rotated])
qed

lemma map_of_mapSet_same: "map_of (mapSet m k v) k = Some v"
  by (simp add: mapSet_def update_conv')

lemma map_of_mapSet_other: "k \<noteq> k' \<Longrightarrow> map_of (mapSet m k' v) k = map_of m k"
  by (simp add: mapSet_def update_conv')

lemma map_of_mapDelete_other: "k \<noteq> k' \<Longrightarrow> map_of (mapDelete m k') k = map_of m k"
  by (simp add: mapDelete_def delete_conv')

lemma scheduleJob_keys:
  "set (mapKeys (activeTasks (scheduleJob validate s job))) =
     (if validateValue validate (cronExpression job)
      then insert (id_job job) (set (mapKeys (activeTasks s)))
      else set (mapKeys (activeTasks s)))"
  by (simp add: scheduleJob_def set_mapKeys_mapSet)

lemma unscheduleJob_keys:
  "set (mapKeys (activeTasks (unscheduleJob s k))) = set (mapKeys (activeTasks s)) - {k}"
  by (auto simp: unscheduleJob_def set_mapKeys_mapDelete mapHas_iff)

lemma fold_schedule_keys:
  "set (mapKeys (activeTasks (fold (\<lambda>job st. if P job then scheduleJob validate st job else st) js s)))
     = set (mapKeys (activeTasks s))
       \<union> {id_job j | j. j \<in> set js \<and> P j \<and> validateValue validate (cronExpression j)}"
proof (induction js arbitrary: s)
  case Nil
  then show ?case by simp
next
  case (Cons j js)
  show ?case
    unfolding fold_Cons comp_def Cons.IH
    by (auto simp: scheduleJob_keys)
qed

lemma fold_unschedule_keys:
  "set (mapKeys (activeTasks (fold (\<lambda>k st. if Q k then unscheduleJob st k else st) ks s)))
     = set (mapKeys (activeTasks s)) - {k \<in> set ks. Q k}"
proof (induction ks arbitrary: s)
  case Nil
  then show ?case by simp
next
  case (Cons k ks)
  show ?case
    unfolding fold_Cons comp_def Cons.IH
    by (auto simp: unscheduleJob_keys)
qed

lemma fold_schedule_map_of:
  "\<forall>j \<in> set js. P j \<longrightarrow> id_job j \<noteq> k \<Longrightarrow>
   map_of (activeTasks (fold (\<lambda>job st. if P job then scheduleJob validate st job else st) js s)) k
     = map_of (activeTasks s) k"
proof (induction js arbitrary: s)
  case Nil
  then show ?case by simp
next
  case (Cons j js)
  then have "map_of (activeTasks (if P j then scheduleJob validate s j else s)) k = map_of (activeTasks s) k"
    by (auto simp: scheduleJob_def map_of_mapSet_other)
  with Cons show ?case by simp
qed

lemma fold_unschedule_map_of:
  "\<forall>k' \<in> set ks. Q k' \<longrightarrow> k' \<noteq> k \<Longrightarrow>
   map_of (activeTasks (fold (\<lambda>k st. if Q k then unscheduleJob st k else st) ks s)) k
     = map_of (activeTasks s) k"
proof (induction ks arbitrary: s)
  case Nil
  then show ?case by simp
next
  case (Cons k' ks)
  then have "map_of (activeTasks (if Q k' then unscheduleJob s k' else s)) k = map_of (activeTasks s) k"
    by (auto simp: unscheduleJob_def map_of_mapDelete_other)
  with Cons show ?case by simp
qed

lemma findAll_syncOptions:
  "findAll ilike db syncOptions =
     Inr \<lparr> r_jobs = map (\<lambda>r. Job_new (rowObject r))
                       (take 1000 (orderByCreatedDesc (filter (\<lambda>r. is_active r = Some True) (jobs db)))),
           r_total = int (length (filter (\<lambda>r. is_active r = Some True) (jobs db))),
           r_page = 1, r_limit = 1000,
           r_totalPages = Some (- ((- int (length (filter (\<lambda>r. is_active r = Some True) (jobs db)))) div 1000)) \<rparr>"
proof -
  have w: "whereClause ilike syncOptions = (\<lambda>r. is_active r = Some True)"
    by (rule ext) (simp add: whereClause_def syncOptions_def defaultOptions_def)
  show ?thesis
    unfolding findAll_def w by (simp add: syncOptions_def defaultOptions_def Let_def)
qed

text \<open>The timer a sync tick creates for a loaded job that had none is the timer of that
  job (its callback closes over the job loaded), the ids of the loaded jobs being distinct
  as the primary key makes them.\<close>
lemma fold_schedule_value:
  assumes "distinct (map id_job js)" and "j \<in> set js" and "P j"
    and "validateValue validate (cronExpression j)"
  shows "map_of (activeTasks (fold (\<lambda>job st. if P job then scheduleJob validate st job else st) js s))
           (id_job j) = Some j"
  using assms
proof (induction js arbitrary: s)
  case Nil
  then show ?case by simp
next
  case (Cons a js)
  show ?case
  proof (cases "a = j")
    case True
    from Cons.prems(1) True have other: "\<forall>x \<in> set js. P x \<longrightarrow> id_job x \<noteq> id_job j"
      by (auto simp: image_iff)
    have "map_of (activeTasks (scheduleJob validate s j)) (id_job j) = Some j"
      using Cons.prems(4) by (simp add: scheduleJob_def map_of_mapSet_same)
    with fold_schedule_map_of[OF other, of validate "scheduleJob validate s j"] True Cons.prems(3)
    show ?thesis by simp
  next
    case False
    with Cons.prems have "j \<in> set js" "distinct (map id_job js)" by simp_all
    from Cons.IH[OF this(2) this(1) Cons.prems(3,4)] show ?thesis by simp
  qed
qed

lemma syncJobs_newcomer:
  assumes run: "isRunning s" and ids: "distinct (map id_job (r_jobs result))"
    and loaded: "j \<in> set (r_jobs result)" and new: "id_job j \<notin> set (mapKeys (activeTasks s))"
    and valid: "validateValue validate (cronExpression j)"
  shows "map_of (activeTasks (syncJobs validate s (Inr result))) (id_job j) = Some j"
proof -
  let ?K = "mapKeys (activeTasks s)"
  let ?A = "map id_job (r_jobs result)"
  let ?s1 = "fold (\<lambda>job st. if id_job job \<notin> set ?K then scheduleJob validate st job else st)
               (r_jobs result) s"
  let ?s2 = "fold (\<lambda>jobIdent st. if jobIdent \<notin> set ?A then unscheduleJob st jobIdent else st) ?K ?s1"
  have "syncJobs validate s (Inr result) = ?s2"
    using run by (simp add: syncJobs_def Let_def)
  moreover have "map_of (activeTasks ?s2) (id_job j) = map_of (activeTasks ?s1) (id_job j)"
    using loaded by (intro fold_unschedule_map_of) auto
  moreover have "map_of (activeTasks ?s1) (id_job j) = Some j"
    using ids loaded new valid by (intro fold_schedule_value) simp_all
  ultimately show ?thesis by simp
qed

text \<open>
  C7, amended. A sync tick does nothing when the service is not running or the query
  fails. Otherwise it loads, with \<open>findAll({ isActive: true, limit: 1000 })\<close>, the jobs whose
  \<open>is_active\<close> is true, newest first and at most 1000 of them, whatever their \<open>next_run_at\<close>.
  Afterwards the timers are those of before whose job id was loaded, each unchanged,
  together with one for every loaded job that had no timer and whose cron expression
  validates. The map of running executions and the counters are untouched.
\<close>
theorem syncJobs_effect:
  "(\<not> isRunning s \<longrightarrow> syncJobs validate s found = s)
   \<and> syncJobs validate s (Inl e) = s
   \<and> (isRunning s \<longrightarrow>
        set (mapKeys (activeTasks (syncJobs validate s (Inr result))))
          = (set (mapKeys (activeTasks s)) \<inter> set (map id_job (r_jobs result)))
            \<union> {id_job j | j. j \<in> set (r_jobs result) \<and> id_job j \<notin> set (mapKeys (activeTasks s))
                               \<and> validateValue validate (cronExpression j)}
        \<and> (\<forall>k \<in> set (mapKeys (activeTasks s)) \<inter> set (map id_job (r_jobs result)).
              map_of (activeTasks (syncJobs validate s (Inr result))) k = map_of (activeTasks s) k))
   \<and> executionQueue (syncJobs validate s found) = executionQueue s
   \<and> stats (syncJobs validate s found) = stats s
   \<and> (\<exists>loaded. findAll ilike db syncOptions = Inr loaded
         \<and> r_jobs loaded = map (\<lambda>r. Job_new (rowObject r))
              (take 1000 (orderByCreatedDesc (filter (\<lambda>r. is_active r = Some True) (jobs db)))))"
proof -
  let ?K = "mapKeys (activeTasks s)"
  let ?A = "map id_job (r_jobs result)"
  let ?s1 = "fold (\<lambda>job st. if id_job job \<notin> set ?K then scheduleJob validate st job else st)
               (r_jobs result) s"
  let ?s2 = "fold (\<lambda>jobIdent st. if jobIdent \<notin> set ?A then unscheduleJob st jobIdent else st) ?K ?s1"
  have run: "syncJobs validate s (Inr result) = ?s2" if "isRunning s"
    using that by (simp add: syncJobs_def Let_def)
  have keys: "set (mapKeys (activeTasks ?s2))
          = (set ?K \<inter> set ?A)
            \<union> {id_job j | j. j \<in> set (r_jobs result) \<and> id_job j \<notin> set ?K
                               \<and> validateValue validate (cronExpression j)}"
    unfolding fold_unschedule_keys fold_schedule_keys
    by auto
  have kept: "map_of (activeTasks ?s2) k = map_of (activeTasks s) k"
    if "k \<in> set ?K \<inter> set ?A" for k
  proof -
    have "map_of (activeTasks ?s2) k = map_of (activeTasks ?s1) k"
      using that by (intro fold_unschedule_map_of) auto
    also have "\<dots> = map_of (activeTasks s) k"
      using that by (intro fold_schedule_map_of) auto
    finally show ?thesis .
  qed
  have p3: "isRunning s \<longrightarrow>
        set (mapKeys (activeTasks (syncJobs validate s (Inr result))))
          = (set ?K \<inter> set ?A)
            \<union> {id_job j | j. j \<in> set (r_jobs result) \<and> id_job j \<notin> set ?K
                               \<and> validateValue validate (cronExpression j)}
        \<and> (\<forall>k \<in> set ?K \<inter> set ?A.
              map_of (activeTasks (syncJobs validate s (Inr result))) k = map_of (activeTasks s) k)"
    using run keys kept by simp
  have p1: "\<not> isRunning s \<longrightarrow> syncJobs validate s found = s"
    by (simp add: syncJobs_def)
  have p2: "syncJobs validate s (Inl e) = s"
    by (simp add: syncJobs_def)
  have p5: "\<exists>loaded. findAll ilike db syncOptions = Inr loaded
         \<and> r_jobs loaded = map (\<lambda>r. Job_new (rowObject r))
              (take 1000 (orderByCreatedDesc (filter (\<lambda>r. is_active r = Some True) (jobs db))))"
    by (simp add: findAll_syncOptions)
  from p1 p2 p3 p5 syncJobs_frame(1,2)[of validate s found] show ?thesis
    by blast
qed

theorem syncJobs_effect_witness:
  "isRunning syncingState
   \<and> findAll (\<lambda>text pattern. False) twoJobsDb syncOptions = Inr exampleLoaded
   \<and> mapKeys (activeTasks syncingState) = [Str ''job-0'', Str ''job-1'']
   \<and> set (mapKeys (activeTasks (syncJobs cronPattern syncingState (Inr exampleLoaded))))
        = (set (mapKeys (activeTasks syncingState)) \<inter> set (map id_job (r_jobs exampleLoaded)))
          \<union> {id_job j | j. j \<in> set (r_jobs exampleLoaded)
                            \<and> id_job j \<notin> set (mapKeys (activeTasks syncingState))
                            \<and> validateValue cronPattern (cronExpression j)}
   \<and> mapKeys (activeTasks (syncJobs cronPattern syncingState (Inr exampleLoaded)))
        = [Str ''job-1'', Str ''job-2'']
   \<and> Str ''job-1'' \<in> set (mapKeys (activeTasks syncingState)) \<inter> set (map id_job (r_jobs exampleLoaded))
   \<and> map_of (activeTasks (syncJobs cronPattern syncingState (Inr exampleLoaded))) (Str ''job-1'')
        = map_of (activeTasks syncingState) (Str ''job-1'')
   \<and> \<not> isRunning (newScheduler doubleOps)
   \<and> syncJobs cronPattern (newScheduler doubleOps) (Inr exampleLoaded) = newScheduler doubleOps"
proof -
  have run: "isRunning syncingState"
    by (simp add: syncingState_def scheduleJob_def newScheduler_def)
  have idle: "\<not> isRunning (newScheduler doubleOps)"
    by (simp add: newScheduler_def)
  have loaded: "findAll (\<lambda>text pattern. False) twoJobsDb syncOptions = Inr exampleLoaded"
    by code_simp
  have before: "mapKeys (activeTasks syncingState) = [Str ''job-0'', Str ''job-1'']"
    by code_simp
  have after: "mapKeys (activeTasks (syncJobs cronPattern syncingState (Inr exampleLoaded)))
        = [Str ''job-1'', Str ''job-2'']"
    by code_simp
  have common: "Str ''job-1'' \<in> set (mapKeys (activeTasks syncingState)) \<inter> set (map id_job (r_jobs exampleLoaded))"
    by code_simp
  note a = syncJobs_effect[of syncingState cronPattern "Inr exampleLoaded" _ exampleLoaded]
  note b = syncJobs_effect[of "newScheduler doubleOps" cronPattern "Inr exampleLoaded" _ exampleLoaded]
  from a run common have
    "set (mapKeys (activeTasks (syncJobs cronPattern syncingState (Inr exampleLoaded))))
        = (set (mapKeys (activeTasks syncingState)) \<inter> set (map id_job (r_jobs exampleLoaded)))
          \<union> {id_job j | j. j \<in> set (r_jobs exampleLoaded)
                            \<and> id_job j \<notin> set (mapKeys (activeTasks syncingState))
                            \<and> validateValue cronPattern (cronExpression j)}"
    "map_of (activeTasks (syncJobs cronPattern syncingState (Inr exampleLoaded))) (Str ''job-1'')
        = map_of (activeTasks syncingState) (Str ''job-1'')"
    by blast+
  moreover from b idle have
    "syncJobs cronPattern (newScheduler doubleOps) (Inr exampleLoaded) = newScheduler doubleOps"
    by blast
  ultimately show ?thesis
    using run idle loaded before after common by blast
qed

text \<open>
  C7, as stated, fails: an active job whose \<open>next_run_at\<close> lies in the future is not in the
  result of \<open>getActiveJobs()\<close>, yet a sync tick schedules it, for the tick loads the jobs
  with \<open>findAll({ isActive: true, limit: 1000 })\<close>.
\<close>
theorem syncJobs_loads_by_is_active_counterexample:
  "getActiveJobs exampleDb 0 = []
   \<and> mapKeys (activeTasks (syncJobs cronPattern ((newScheduler doubleOps)\<lparr> isRunning := True \<rparr>)
                              (findAll (\<lambda>text pattern. False) exampleDb syncOptions)))
       = [Str ''job-1'']"
  by code_simp
section \<open>Properties of calculateNextRunTime\<close>

lemma hour_part: "Day t * msPerDay + HourFromTime t * msPerHour = t - t mod msPerHour"
proof -
  have "t div 86400000 = (t div 3600000) div 24"
    by (simp add: zdiv_zmult2_eq[symmetric])
  then have "(t div 86400000) * 24 + (t div 3600000) mod 24 = t div 3600000"
    by simp
  then have "(t div 86400000) * 86400000 + ((t div 3600000) mod 24) * 3600000 = (t div 3600000) * 3600000"
    by (simp add: algebra_simps)
  also have "\<dots> = t - t mod 3600000"
    by (simp add: minus_mod_eq_div_mult)
  finally show ?thesis
    by (simp add: Day_def HourFromTime_def msPerDay_def msPerHour_def)
qed

lemma minute_part:
  "Day t * msPerDay + HourFromTime t * msPerHour + MinFromTime t * msPerMinute = t - t mod msPerMinute"
proof -
  have "t div 3600000 = (t div 60000) div 60"
    by (simp add: zdiv_zmult2_eq[symmetric])
  then have "(t div 3600000) * 60 + (t div 60000) mod 60 = t div 60000"
    by simp
  then have "(t div 3600000) * 3600000 + ((t div 60000) mod 60) * 60000 = (t div 60000) * 60000"
    by (simp add: algebra_simps)
  also have "\<dots> = t - t mod 60000"
    by (simp add: minus_mod_eq_div_mult)
  finally have "(t - t mod 3600000) + ((t div 60000) mod 60) * 60000 = t - t mod 60000"
    by (simp add: minus_mod_eq_div_mult)
  then show ?thesis
    unfolding hour_part by (simp add: MinFromTime_def msPerMinute_def msPerHour_def)
qed

lemma second_part:
  "SecFromTime t * msPerSecond + msFromTime t = t mod msPerMinute"
proof -
  have "t mod (1000 * 60) = 1000 * (t div 1000 mod 60) + t mod 1000"
    by (rule zmod_zmult2_eq) simp
  then show ?thesis
    by (simp add: SecFromTime_def msFromTime_def msPerSecond_def msPerMinute_def)
qed

lemma time_parts:
  "Day t * msPerDay + (HourFromTime t * msPerHour + MinFromTime t * msPerMinute
      + SecFromTime t * msPerSecond + msFromTime t) = t"
  using minute_part[of t] second_part[of t] by simp

lemma TimeClip_in_range: "\<bar>v\<bar> \<le> 8640000000000000 \<Longrightarrow> TimeClip v = Some v"
  by (simp add: TimeClip_def)

lemma mod_bounds:
  "0 \<le> t mod msPerMinute" "t mod msPerMinute < 60000"
  "0 \<le> t mod msPerHour" "t mod msPerHour < 3600000"
  "0 \<le> t mod msPerDay" "t mod msPerDay < 86400000"
  by (simp_all add: msPerMinute_def msPerHour_def msPerDay_def)

lemma day_part: "Day u * msPerDay = u - u mod msPerDay"
  by (simp add: Day_def minus_mod_eq_div_mult)

lemma setHours1_utc:
  "setHours1 0 (Some u) (Some h) = TimeClip (u - u mod msPerDay + h * msPerHour + u mod msPerHour)"
proof -
  have "setHours1 0 (Some u) (Some h) =
          TimeClip (Day u * msPerDay + (h * msPerHour + MinFromTime u * msPerMinute
                      + SecFromTime u * msPerSecond + msFromTime u))"
    by (simp add: setHours1_def LocalTime_def storeLocal_def MakeDate_def MakeTime_def Let_def)
  also have "Day u * msPerDay + (h * msPerHour + MinFromTime u * msPerMinute
                      + SecFromTime u * msPerSecond + msFromTime u)
               = u - u mod msPerDay + h * msPerHour + u mod msPerHour"
    using time_parts[of u] hour_part[of u] day_part[of u] by linarith
  finally show ?thesis .
qed

lemma setHours1_next_utc:
  "setHours1 0 (Some u) (jsadd (getHours 0 (Some u)) (Some 1)) = TimeClip (u + msPerHour)"
proof -
  have "setHours1 0 (Some u) (jsadd (getHours 0 (Some u)) (Some 1))
          = TimeClip (u - u mod msPerDay + (HourFromTime u + 1) * msPerHour + u mod msPerHour)"
    by (simp add: setHours1_utc getHours_def jsadd_def LocalTime_def)
  also have "(HourFromTime u + 1) * msPerHour = HourFromTime u * msPerHour + msPerHour"
    by (simp add: algebra_simps)
  also have "u - u mod msPerDay + (HourFromTime u * msPerHour + msPerHour) + u mod msPerHour = u + msPerHour"
    using hour_part[of u] day_part[of u] by linarith
  finally show ?thesis .
qed

lemma setMinutes3_utc:
  "setMinutes3 0 (Some u) (Some m) (Some 0) (Some 0) = TimeClip (u - u mod msPerHour + m * msPerMinute)"
proof -
  have "setMinutes3 0 (Some u) (Some m) (Some 0) (Some 0)
          = TimeClip (Day u * msPerDay + (HourFromTime u * msPerHour + m * msPerMinute))"
    by (simp add: setMinutes3_def LocalTime_def storeLocal_def MakeDate_def MakeTime_def Let_def)
  also have "Day u * msPerDay + (HourFromTime u * msPerHour + m * msPerMinute)
               = u - u mod msPerHour + m * msPerMinute"
    using hour_part[of u] by linarith
  finally show ?thesis .
qed

lemma setMinutes1_utc:
  "setMinutes1 0 (Some u) (Some m) = TimeClip (u - u mod msPerHour + m * msPerMinute + u mod msPerMinute)"
proof -
  have "setMinutes1 0 (Some u) (Some m)
          = TimeClip (Day u * msPerDay + (HourFromTime u * msPerHour + m * msPerMinute
                        + SecFromTime u * msPerSecond + msFromTime u))"
    by (simp add: setMinutes1_def LocalTime_def storeLocal_def MakeDate_def MakeTime_def Let_def)
  also have "Day u * msPerDay + (HourFromTime u * msPerHour + m * msPerMinute
                        + SecFromTime u * msPerSecond + msFromTime u)
          = u - u mod msPerHour + m * msPerMinute + u mod msPerMinute"
    using hour_part[of u] second_part[of u] by linarith
  finally show ?thesis .
qed

lemma setSeconds_utc:
  "setSeconds 0 (Some u) (Some 0) (Some 0) = TimeClip (u - u mod msPerMinute)"
proof -
  have "setSeconds 0 (Some u) (Some 0) (Some 0)
          = TimeClip (Day u * msPerDay + (HourFromTime u * msPerHour + MinFromTime u * msPerMinute))"
    by (simp add: setSeconds_def LocalTime_def storeLocal_def MakeDate_def MakeTime_def Let_def)
  also have "Day u * msPerDay + (HourFromTime u * msPerHour + MinFromTime u * msPerMinute)
               = u - u mod msPerMinute"
    using minute_part[of u] by linarith
  finally show ?thesis .
qed

lemma setHours4_utc:
  "setHours4 0 (Some u) (Some h) (Some m) (Some 0) (Some 0)
     = TimeClip (u - u mod msPerDay + h * msPerHour + m * msPerMinute)"
proof -
  have "setHours4 0 (Some u) (Some h) (Some m) (Some 0) (Some 0)
          = TimeClip (Day u * msPerDay + (h * msPerHour + m * msPerMinute))"
    by (simp add: setHours4_def LocalTime_def storeLocal_def MakeDate_def MakeTime_def Let_def)
  also have "Day u * msPerDay + (h * msPerHour + m * msPerMinute)
               = u - u mod msPerDay + h * msPerHour + m * msPerMinute"
    using day_part[of u] by linarith
  finally show ?thesis .
qed

lemma setDate_getDate_plus_utc:
  "setDate_getDate_plus 0 (Some u) k = TimeClip (u + k * msPerDay)"
proof -
  have "setDate_getDate_plus 0 (Some u) k = TimeClip ((Day u + k) * msPerDay + u mod msPerDay)"
    by (simp add: setDate_getDate_plus_def LocalTime_def storeLocal_def MakeDate_def Let_def)
  also have "(Day u + k) * msPerDay = Day u * msPerDay + k * msPerDay"
    by (simp add: algebra_simps)
  also have "Day u * msPerDay + k * msPerDay + u mod msPerDay = u + k * msPerDay"
    using day_part[of u] by linarith
  finally show ?thesis .
qed

text \<open>In a process of any zone: one hour more on the clock is one hour later, and
  \<open>setMinutes(m, 0, 0)\<close> goes back to the start of the local hour.\<close>
lemma setHours1_next_local:
  "setHours1 tz (Some u) (jsadd (getHours tz (Some u)) (Some 1)) = TimeClip (u + msPerHour)"
proof -
  let ?L = "u + tz"
  have "setHours1 tz (Some u) (jsadd (getHours tz (Some u)) (Some 1))
          = TimeClip (Day ?L * msPerDay + ((HourFromTime ?L + 1) * msPerHour + MinFromTime ?L * msPerMinute
                      + SecFromTime ?L * msPerSecond + msFromTime ?L) - tz)"
    by (simp add: setHours1_def getHours_def jsadd_def LocalTime_def storeLocal_def MakeDate_def
          MakeTime_def Let_def)
  also have "(HourFromTime ?L + 1) * msPerHour = HourFromTime ?L * msPerHour + msPerHour"
    by (simp add: algebra_simps)
  also have "Day ?L * msPerDay + (HourFromTime ?L * msPerHour + msPerHour + MinFromTime ?L * msPerMinute
                      + SecFromTime ?L * msPerSecond + msFromTime ?L) - tz = u + msPerHour"
    using time_parts[of ?L] by linarith
  finally show ?thesis .
qed

lemma setMinutes3_local:
  "setMinutes3 tz (Some u) (Some m) (Some 0) (Some 0)
     = TimeClip (u - (u + tz) mod msPerHour + m * msPerMinute)"
proof -
  let ?L = "u + tz"
  have "setMinutes3 tz (Some u) (Some m) (Some 0) (Some 0)
          = TimeClip (Day ?L * msPerDay + (HourFromTime ?L * msPerHour + m * msPerMinute) - tz)"
    by (simp add: setMinutes3_def LocalTime_def storeLocal_def MakeDate_def MakeTime_def Let_def)
  also have "Day ?L * msPerDay + (HourFromTime ?L * msPerHour + m * msPerMinute) - tz
               = u - ?L mod msPerHour + m * msPerMinute"
    using hour_part[of ?L] by linarith
  finally show ?thesis .
qed

lemma fallback_branch_local:
  assumes range: "\<bar>t0\<bar> \<le> 8000000000000000"
  shows "(let u = Some (t0 + istOffset);
              n1 = setHours1 tz u (jsadd (getHours tz u) (Some 1))
          in setMinutes3 tz n1 (Some 0) (Some 0) (Some 0))
         = Some (nextLocalHour tz t0 + istOffset)"
proof -
  let ?u = "t0 + istOffset"
  have n1: "setHours1 tz (Some ?u) (jsadd (getHours tz (Some ?u)) (Some 1)) = Some (?u + msPerHour)"
    unfolding setHours1_next_local using range
    by (simp add: TimeClip_def istOffset_def msPerHour_def)
  have "?u + msPerHour + tz = ?u + tz + msPerHour" by simp
  then have m: "(?u + msPerHour + tz) mod msPerHour = (?u + tz) mod msPerHour"
    by (simp only: mod_add_self2)
  have "setMinutes3 tz (Some (?u + msPerHour)) (Some 0) (Some 0) (Some 0)
          = Some (?u + msPerHour - (?u + tz) mod msPerHour)"
    unfolding setMinutes3_local m using range mod_bounds[of "?u + tz"]
    by (simp add: TimeClip_def istOffset_def msPerHour_def)
  with n1 show ?thesis
    by (simp add: Let_def nextLocalHour_def)
qed

text \<open>
  For an expression the validator accepts that matches none of the special-cased
  patterns, and a base instant within the range of \<open>Date\<close>, the \<open>else\<close> branch gives, in a
  process of whatever zone, the instant at which the clock of the process read \<open>istOffset\<close>
  ahead next shows the start of an hour: later than the base by at most an hour, and by a
  whole hour only when the base itself is such an instant.
\<close>
lemma fallback_is_next_local_hour:
  assumes range: "\<bar>t0\<bar> \<le> 8000000000000000"
    and valid: "validate expr" and other: "\<not> specialCased expr"
  shows "calculateNextRunTime validate tz expr (Some t0) = Some (nextLocalHour tz t0)"
    and "t0 < nextLocalHour tz t0" and "nextLocalHour tz t0 \<le> t0 + 3600000"
    and "nextLocalHour tz t0 = t0 + 3600000 \<longleftrightarrow> (t0 + istOffset + tz) mod msPerHour = 0"
proof -
  have ist: "newDate (jsadd (getTime (Some t0)) (Some istOffset)) = Some (t0 + istOffset)"
    using range by (simp add: newDate_def jsadd_def getTime_def TimeClip_def istOffset_def)
  have conv: "newDate (jssub (getTime (Some (nextLocalHour tz t0 + istOffset))) (Some istOffset))
                = Some (nextLocalHour tz t0)"
    using range mod_bounds[of "t0 + istOffset + tz"]
    by (simp add: newDate_def jssub_def getTime_def TimeClip_def nextLocalHour_def istOffset_def msPerHour_def)
  from other have br: "expr \<noteq> ''* * * * *''"
      "\<not> (case element (split_space expr) 0 of None \<Rightarrow> False | Some m \<Rightarrow> startsWith m ''*/'')"
      "\<not> (element (split_space expr) 0 \<noteq> Some ''*'' \<and> element (split_space expr) 1 = Some ''*'')"
      "\<not> (element (split_space expr) 0 \<noteq> Some ''*'' \<and> element (split_space expr) 1 \<noteq> Some ''*''
           \<and> element (split_space expr) 2 = Some ''*'' \<and> element (split_space expr) 3 = Some ''*'')"
    by (auto simp: specialCased_def Let_def)
  have ist2: "newDate (getTime (Some (t0 + istOffset))) = Some (t0 + istOffset)"
    using range by (simp add: newDate_def getTime_def TimeClip_def istOffset_def)
  have "calculateNextRunTime validate tz expr (Some t0) =
          newDate (jssub (getTime (let u = Some (t0 + istOffset);
              n1 = setHours1 tz u (jsadd (getHours tz u) (Some 1))
          in setMinutes3 tz n1 (Some 0) (Some 0) (Some 0))) (Some istOffset))"
    unfolding calculateNextRunTime_def Let_def
    by (simp only: valid br ist ist2 if_True if_False not_True_eq_False not_False_eq_True)
  also have "\<dots> = Some (nextLocalHour tz t0)"
    unfolding fallback_branch_local[OF range] by (rule conv)
  finally show "calculateNextRunTime validate tz expr (Some t0) = Some (nextLocalHour tz t0)" .
  show "t0 < nextLocalHour tz t0" "nextLocalHour tz t0 \<le> t0 + 3600000"
    "nextLocalHour tz t0 = t0 + 3600000 \<longleftrightarrow> (t0 + istOffset + tz) mod msPerHour = 0"
    using mod_bounds[of "t0 + istOffset + tz"] by (simp_all add: nextLocalHour_def msPerHour_def)
qed

text \<open>An expression the validator rejects gives the base plus one hour, within the range of
  \<open>Date\<close>, where the \<open>catch\<close> block does not throw.\<close>
lemma rejected_expression_gives_one_hour:
  assumes "\<bar>t0\<bar> \<le> 8000000000000000" and "\<not> validate expr"
  shows "calculateNextRunTime validate tz expr (Some t0) = Some (t0 + 3600000)"
    and "\<not> calculateNextRunTimeThrows validate expr (Some t0)"
  using assms
  by (simp_all add: calculateNextRunTime_def calculateNextRunTimeThrows_def newDate_def jsadd_def
        getTime_def TimeClip_def)

text \<open>
  C5 fails for an expression that is valid and matches none of the special-cased
  patterns. With \<open>* * 1 * *\<close> and the epoch as base the result is half an hour later in a
  process running in UTC, and with the base 00:10 UTC it is 50 minutes later in a process
  running in Asia/Kolkata: the \<open>else\<close> branch adds an hour and then sets the minutes,
  seconds and milliseconds to zero, under the comment \<open>Add 1 hour as a safe default\<close>. The
  \<open>catch\<close> block, taken for the rejected expression \<open>bogus\<close>, returns the base plus one hour.
\<close>
theorem fallback_is_not_one_hour:
  "cronPattern ''* * 1 * *'' \<and> \<not> specialCased ''* * 1 * *''
   \<and> calculateNextRunTime cronPattern 0 ''* * 1 * *'' (Some 0) = Some 1800000
   \<and> calculateNextRunTime cronPattern 19800000 ''* * 1 * *'' (Some 600000) = Some 3600000
   \<and> \<not> cronPattern ''bogus''
   \<and> calculateNextRunTime cronPattern 0 ''bogus'' (Some 0) = Some 3600000"
  by code_simp

text \<open>Whole minutes: an instant and the index of its minute, and the arithmetic of the
  next index for each shape.\<close>
lemma minute_index:
  fixes u :: int
  shows "u < 60000 * k \<longleftrightarrow> u div 60000 < k" and "60000 * k \<le> u \<longleftrightarrow> k \<le> u div 60000"
proof -
  have d: "u = 60000 * (u div 60000) + u mod 60000" by simp
  have b: "0 \<le> u mod 60000" "u mod 60000 < 60000" by simp_all
  show "u < 60000 * k \<longleftrightarrow> u div 60000 < k" using d b by linarith
  show "60000 * k \<le> u \<longleftrightarrow> k \<le> u div 60000" using d b by linarith
qed

lemma floor_minute: fixes u :: int shows "u - u mod msPerMinute = 60000 * (u div 60000)"
  by (simp add: msPerMinute_def minus_mod_eq_mult_div)

lemma floor_hour: fixes u :: int shows "u - u mod msPerHour = 60000 * (60 * (u div 60000 div 60))"
proof -
  have "u div 3600000 = u div 60000 div 60"
    by (simp add: zdiv_zmult2_eq[symmetric])
  then show ?thesis
    by (simp add: msPerHour_def minus_mod_eq_mult_div)
qed

lemma floor_day: fixes u :: int shows "u - u mod msPerDay = 60000 * (1440 * (u div 60000 div 1440))"
proof -
  have "u div 86400000 = u div 60000 div 1440"
    by (simp add: zdiv_zmult2_eq[symmetric])
  then show ?thesis
    by (simp add: msPerDay_def minus_mod_eq_mult_div)
qed

lemma minute_of_index: "MinFromTime (60000 * k) = k mod 60" "MinFromTime u = u div 60000 mod 60"
  by (simp_all add: MinFromTime_def msPerMinute_def)

lemma hour_of_index: "(60000 * k) div msPerHour mod 24 = k div 60 mod (24::int)"
proof -
  have "(60000 * k) div 3600000 = (60000 * k) div 60000 div 60"
    by (simp add: zdiv_zmult2_eq[symmetric])
  then show ?thesis by (simp add: msPerHour_def)
qed

lemma minute_and_rest:
  fixes m X :: int
  assumes "0 \<le> m" "m < 60"
  shows "(m + 60 * X) mod 60 = m" and "(m + 60 * X) div 60 = X"
  using assms by simp_all

lemma at_minute_next:
  fixes q m :: int
  assumes "0 \<le> m" "m < 60"
  shows "q < 60 * (q div 60) + m + (if m \<le> q mod 60 then 60 else 0)"
    and "(60 * (q div 60) + m + (if m \<le> q mod 60 then 60 else 0)) mod 60 = m"
proof -
  have d: "q = 60 * (q div 60) + q mod 60" by simp
  have b: "0 \<le> q mod 60" "q mod 60 < 60" by simp_all
  show "q < 60 * (q div 60) + m + (if m \<le> q mod 60 then 60 else 0)"
  proof (cases "m \<le> q mod 60")
    case True with d b assms show ?thesis unfolding if_P[OF True] by linarith
  next
    case False with d b assms show ?thesis unfolding if_not_P[OF False] by linarith
  qed
  show "(60 * (q div 60) + m + (if m \<le> q mod 60 then 60 else 0)) mod 60 = m"
    using assms by (cases "m \<le> q mod 60") simp_all
qed

lemma at_minute_least:
  fixes q k m :: int
  assumes "q < k" "k mod 60 = m"
  shows "60 * (q div 60) + m + (if m \<le> q mod 60 then 60 else 0) \<le> k"
proof -
  have d: "q = 60 * (q div 60) + q mod 60" by simp
  have k1: "k = 60 * (k div 60) + m" unfolding assms(2)[symmetric] by simp
  have b: "0 \<le> q mod 60" "q mod 60 < 60" "0 \<le> m" "m < 60"
    using assms(2) by auto
  consider "k div 60 < q div 60" | "k div 60 = q div 60" | "q div 60 < k div 60"
    by linarith
  then show ?thesis
  proof cases
    case 1 with d k1 b assms(1) show ?thesis by linarith
  next
    case 2
    show ?thesis
    proof (cases "m \<le> q mod 60")
      case True with 2 d k1 b assms(1) show ?thesis unfolding if_P[OF True] by linarith
    next
      case False with 2 d k1 b assms(1) show ?thesis unfolding if_not_P[OF False] by linarith
    qed
  next
    case 3
    show ?thesis
    proof (cases "m \<le> q mod 60")
      case True with 3 d k1 b assms(1) show ?thesis unfolding if_P[OF True] by linarith
    next
      case False with 3 d k1 b assms(1) show ?thesis unfolding if_not_P[OF False] by linarith
    qed
  qed
qed

lemma daily_next:
  fixes q m h :: int
  assumes "0 \<le> m" "m < 60" "0 \<le> h" "h < 24"
  shows "q < 1440 * (q div 1440) + 60 * h + m + (if 1440 * (q div 1440) + 60 * h + m \<le> q then 1440 else 0)"
    and "(1440 * (q div 1440) + 60 * h + m + (if 1440 * (q div 1440) + 60 * h + m \<le> q then 1440 else 0)) mod 60 = m"
    and "(1440 * (q div 1440) + 60 * h + m + (if 1440 * (q div 1440) + 60 * h + m \<le> q then 1440 else 0)) div 60 mod 24 = h"
proof -
  let ?x = "1440 * (q div 1440) + 60 * h + m"
  have d: "q = 1440 * (q div 1440) + q mod 1440" by simp
  have b: "0 \<le> q mod 1440" "q mod 1440 < 1440" by simp_all
  show "q < ?x + (if ?x \<le> q then 1440 else 0)"
  proof (cases "?x \<le> q")
    case True with d b assms show ?thesis unfolding if_P[OF True] by linarith
  next
    case False with d b assms show ?thesis unfolding if_not_P[OF False] by linarith
  qed
  obtain K where e: "?x + (if ?x \<le> q then 1440 else 0) = m + 60 * (h + 24 * K)"
  proof (cases "?x \<le> q")
    case True
    have "?x + (if ?x \<le> q then 1440 else 0) = m + 60 * (h + 24 * (q div 1440 + 1))"
      unfolding if_P[OF True] by simp
    then show ?thesis by (rule that)
  next
    case False
    have "?x + (if ?x \<le> q then 1440 else 0) = m + 60 * (h + 24 * (q div 1440))"
      unfolding if_not_P[OF False] by simp
    then show ?thesis by (rule that)
  qed
  have m: "(m + 60 * (h + 24 * K)) mod 60 = m"
    using assms(1,2) by (rule minute_and_rest(1))
  have "(m + 60 * (h + 24 * K)) div 60 = h + 24 * K"
    using assms(1,2) by (rule minute_and_rest(2))
  then have h: "(m + 60 * (h + 24 * K)) div 60 mod 24 = h"
    using assms(3,4) by simp
  show "(?x + (if ?x \<le> q then 1440 else 0)) mod 60 = m"
    unfolding e by (rule m)
  show "(?x + (if ?x \<le> q then 1440 else 0)) div 60 mod 24 = h"
    unfolding e by (rule h)
qed

lemma daily_least:
  fixes q k m h :: int
  assumes "q < k" "k mod 60 = m" "k div 60 mod 24 = h"
  shows "1440 * (q div 1440) + 60 * h + m
           + (if 1440 * (q div 1440) + 60 * h + m \<le> q then 1440 else 0) \<le> k"
proof -
  let ?x = "1440 * (q div 1440) + 60 * h + m"
  have k1: "k = 60 * (k div 60) + m" unfolding assms(2)[symmetric] by simp
  have k2: "k div 60 = 24 * (k div 60 div 24) + h" unfolding assms(3)[symmetric] by simp
  have d: "q = 1440 * (q div 1440) + q mod 1440" by simp
  have b: "0 \<le> q mod 1440" "q mod 1440 < 1440" "0 \<le> m" "m < 60" "0 \<le> h" "h < 24"
    using assms(2,3) by auto
  consider "k div 60 div 24 < q div 1440" | "k div 60 div 24 = q div 1440" | "q div 1440 < k div 60 div 24"
    by linarith
  then show ?thesis
  proof cases
    case 1 with d b k1 k2 assms(1) show ?thesis by linarith
  next
    case 2
    show ?thesis
    proof (cases "?x \<le> q")
      case True with 2 d b k1 k2 assms(1) show ?thesis unfolding if_P[OF True] by linarith
    next
      case False with 2 d b k1 k2 assms(1) show ?thesis unfolding if_not_P[OF False] by linarith
    qed
  next
    case 3
    show ?thesis
    proof (cases "?x \<le> q")
      case True with 3 d b k1 k2 assms(1) show ?thesis unfolding if_P[OF True] by linarith
    next
      case False with 3 d b k1 k2 assms(1) show ?thesis unfolding if_not_P[OF False] by linarith
    qed
  qed
qed

lemma ceiling_step:
  fixes c n :: int
  assumes "0 < n"
  shows "- ((- (c + 1)) div n) = c div n + 1"
proof -
  have d: "c = n * (c div n) + c mod n" by simp
  have b: "0 \<le> c mod n" "c mod n < n" using assms by simp_all
  have "- (c + 1) = (n - 1 - c mod n) + n * (- (c div n) - 1)"
  proof -
    have "n * (- (c div n) - 1) = - (n * (c div n)) - n" by (simp add: algebra_simps)
    with d show ?thesis by linarith
  qed
  then have "(- (c + 1)) div n = ((n - 1 - c mod n) + n * (- (c div n) - 1)) div n"
    by (rule arg_cong)
  also have "\<dots> = (- (c div n) - 1) + (n - 1 - c mod n) div n"
    using assms by (simp only: div_mult_self2[OF less_imp_neq[THEN not_sym]])
  also have "(n - 1 - c mod n) div n = 0"
    using b by (simp add: div_pos_pos_trivial)
  finally show ?thesis by simp
qed

lemma step_index:
  fixes q n :: int
  assumes "0 < n" "n dvd 60"
  shows "60 * (q div 60) + (q mod 60 div n + 1) * n = n * (q div n + 1)"
proof -
  obtain d where d: "60 = n * d" using assms(2) by (auto simp: dvd_def)
  have "q = q mod 60 + n * (d * (q div 60))"
    using d by (simp add: mult.assoc[symmetric])
  then have "q div n = (q mod 60 + n * (d * (q div 60))) div n" by simp
  also have "\<dots> = d * (q div 60) + q mod 60 div n"
    using assms(1) by simp
  finally have "n * (q div n) = n * d * (q div 60) + n * (q mod 60 div n)"
    by (simp add: algebra_simps)
  then show ?thesis using d by (simp add: algebra_simps)
qed

lemma step_next:
  fixes q n :: int
  assumes "0 < n"
  shows "q < n * (q div n + 1)" and "(n * (q div n + 1)) mod n = 0"
proof -
  have d: "q = n * (q div n) + q mod n" by simp
  have b: "q mod n < n" using assms by simp
  have "n * (q div n + 1) = n * (q div n) + n" by (simp add: algebra_simps)
  with d b show "q < n * (q div n + 1)" by linarith
  show "(n * (q div n + 1)) mod n = 0" by simp
qed

lemma step_least:
  fixes q k n :: int
  assumes "0 < n" "q < k" "k mod n = 0"
  shows "n * (q div n + 1) \<le> k"
proof -
  have k1: "k = n * (k div n)" using assms(3) by auto
  have "q div n < k div n"
  proof (rule ccontr)
    assume "\<not> q div n < k div n"
    then have "k div n \<le> q div n" by simp
    then have "n * (k div n) \<le> n * (q div n)" using assms(1) by (simp add: mult_left_mono)
    also have "\<dots> \<le> q"
    proof -
      have "q = n * (q div n) + q mod n" by simp
      moreover have "0 \<le> q mod n" using assms(1) by simp
      ultimately show ?thesis by linarith
    qed
    finally show False using k1 assms(2) by simp
  qed
  then have "q div n + 1 \<le> k div n" by simp
  then have "n * (q div n + 1) \<le> n * (k div n)" using assms(1) by (simp only: mult_le_cancel_left_pos)
  with k1 show ?thesis by simp
qed

text \<open>\<open>parseInt\<close> reads a decimal numeral back, and a numeral holds no space, star or step.\<close>
lemma digitValue_digitChar: "digitValue (digitChar d) = Some (d mod 10)"
  using digitValue_small[of "d mod 10"] by (simp add: digitChar_mod)

lemma digit_chars:
  "list_all (\<lambda>c. isRadixDigit 10 c \<and> \<not> isWhiteSpace c \<and> c \<noteq> CHR ''-'' \<and> c \<noteq> CHR ''+'' \<and>
     c \<noteq> CHR '' '' \<and> c \<noteq> CHR ''*'' \<and> c \<noteq> CHR ''x'' \<and> c \<noteq> CHR ''X'') ''0123456789''"
  by code_simp

lemma isDigit_facts:
  assumes "isDigit c"
  shows "isRadixDigit 10 c" "\<not> isWhiteSpace c" "c \<noteq> CHR ''-''" "c \<noteq> CHR ''+''" "c \<noteq> CHR '' ''"
    "c \<noteq> CHR ''*''" "c \<noteq> CHR ''x''" "c \<noteq> CHR ''X''"
  using assms digit_chars unfolding isDigit_def list_all_iff by blast+

lemma decimal_nonempty: "decimal n \<noteq> []"
  by (subst decimal.simps) simp

lemma digitsValue_snoc:
  "digitsValue r acc (xs @ [c]) =
     digitsValue r acc xs * int r + int (case digitValue c of None \<Rightarrow> 0 | Some v \<Rightarrow> v)"
  by (induction xs arbitrary: acc) simp_all

lemma digitsValue_decimal: "digitsValue 10 0 (decimal n) = int n"
proof (induction n rule: decimal.induct)
  case (1 n)
  show ?case
  proof (cases "n < 10")
    case True
    then show ?thesis by (subst decimal.simps) (simp add: digitValue_digitChar)
  next
    case False
    with 1 have "digitsValue 10 0 (decimal (n div 10)) = int (n div 10)" by simp
    with False show ?thesis
      by (subst decimal.simps) (simp add: digitsValue_snoc digitValue_digitChar zdiv_int zmod_int)
  qed
qed

lemma parseInt_decimal: "parseInt (decimal n) = Some (int n)"
proof -
  obtain c cs where s: "decimal n = c # cs"
    using decimal_nonempty[of n] by (cases "decimal n") auto
  have all: "list_all isDigit (c # cs)"
    using decimal_digits[of n] s by simp
  then have c: "isDigit c" by simp
  have tw: "takeWhile (isRadixDigit 10) (c # cs) = c # cs"
    using all by (auto simp: takeWhile_eq_all_conv list_all_iff isDigit_facts(1))
  have nohex: "take 2 (c # cs) \<noteq> ''0x''" "take 2 (c # cs) \<noteq> ''0X''"
  proof -
    show "take 2 (c # cs) \<noteq> ''0x''"
    proof (cases cs)
      case Nil then show ?thesis by simp
    next
      case (Cons d ds)
      with all have "isDigit d" by simp
      then show ?thesis using Cons isDigit_facts(7)[of d] by auto
    qed
    show "take 2 (c # cs) \<noteq> ''0X''"
    proof (cases cs)
      case Nil then show ?thesis by simp
    next
      case (Cons d ds)
      with all have "isDigit d" by simp
      then show ?thesis using Cons isDigit_facts(8)[of d] by auto
    qed
  qed
  have "parseDigits 10 (c # cs) = Some (int n)"
    unfolding parseDigits_def Let_def tw using digitsValue_decimal[of n] s by simp
  then have "parseUnsigned (c # cs) = Some (int n)"
    unfolding parseUnsigned_def using nohex by (simp only: simp_thms if_False)
  then show ?thesis
    using isDigit_facts(2,3,4)[OF c] by (simp add: parseInt_def s Let_def)
qed

lemma split_space_word:
  "CHR '' '' \<notin> set w \<Longrightarrow> split_space (w @ CHR '' '' # rest) = w # split_space rest"
  by (induction w) (auto split: list.splits)

lemma decimal_no_space: "CHR '' '' \<notin> set (decimal n)"
  using decimal_digits[of n] isDigit_facts(5) by (auto simp: list_all_iff)

lemma decimal_not_star: "decimal n \<noteq> ''*''"
proof
  assume "decimal n = ''*''"
  with decimal_digits[of n] have "isDigit CHR ''*''" by simp
  then show False using isDigit_facts(6) by blast
qed

lemma decimal_not_step: "\<not> startsWith (decimal n) ''*/''"
proof
  assume a: "startsWith (decimal n) ''*/''"
  obtain c cs where s: "decimal n = c # cs"
    using decimal_nonempty[of n] by (cases "decimal n") auto
  with decimal_digits[of n] have "isDigit c" by simp
  moreover from a s have "c = CHR ''*''" by (cases cs) (auto simp: startsWith_def)
  ultimately show False using isDigit_facts(6) by blast
qed

text \<open>The value of each special-cased branch, in a process running in UTC.\<close>
lemma element_five:
  "element [a, b, c, d, e] 0 = Some a" "element [a, b, c, d, e] 1 = Some b"
  "element [a, b, c, d, e] 2 = Some c" "element [a, b, c, d, e] 3 = Some d"
  by (simp_all add: numeral_3_eq_3 numeral_2_eq_2)

lemma split_stars: "split_space ''* * * *'' = [''*'', ''*'', ''*'', ''*'']"
  "split_space ''* * *'' = [''*'', ''*'', ''*'']"
  "split_space ''* * * * *'' = [''*'', ''*'', ''*'', ''*'', ''*'']"
  by code_simp+

lemma base_dates:
  assumes "\<bar>t0\<bar> \<le> 8000000000000000"
  shows "newDate (jsadd (getTime (Some t0)) (Some istOffset)) = Some (t0 + istOffset)"
    and "newDate (getTime (Some (t0 + istOffset))) = Some (t0 + istOffset)"
  using assms by (simp_all add: newDate_def jsadd_def getTime_def TimeClip_def istOffset_def)

lemma index_bounds:
  fixes u q :: int
  shows "60000 * (u div 60000) \<le> u" "u < 60000 * (u div 60000) + 60000"
    "60 * (q div 60) \<le> q" "q < 60 * (q div 60) + 60"
    "1440 * (q div 1440) \<le> q" "q < 1440 * (q div 1440) + 1440"
    "0 \<le> q mod 60" "q mod 60 < 60"
proof -
  have "u = 60000 * (u div 60000) + u mod 60000" by simp
  moreover have "0 \<le> u mod 60000" "u mod 60000 < 60000" by simp_all
  ultimately show "60000 * (u div 60000) \<le> u" "u < 60000 * (u div 60000) + 60000" by linarith+
  have "q = 60 * (q div 60) + q mod 60" by simp
  moreover have a: "0 \<le> q mod 60" "q mod 60 < 60" by simp_all
  ultimately show "60 * (q div 60) \<le> q" "q < 60 * (q div 60) + 60" by linarith+
  have "q = 1440 * (q div 1440) + q mod 1440" by simp
  moreover have "0 \<le> q mod 1440" "q mod 1440 < 1440" by simp_all
  ultimately show "1440 * (q div 1440) \<le> q" "q < 1440 * (q div 1440) + 1440" by linarith+
  show "0 \<le> q mod 60" "q mod 60 < 60" by (rule a)+
qed

lemma back_to_utc:
  assumes "\<bar>t0\<bar> \<le> 8000000000000000" and "(t0 + istOffset) div 60000 - 3000 \<le> k"
    and "k \<le> (t0 + istOffset) div 60000 + 3000"
  shows "TimeClip (60000 * k) = Some (60000 * k)"
    and "newDate (jssub (getTime (Some (60000 * k))) (Some istOffset)) = Some (60000 * k - istOffset)"
proof -
  from index_bounds(1,2)[of "t0 + istOffset"] assms
  have "\<bar>60000 * k\<bar> \<le> 8640000000000000 - 19800000"
    by (simp add: istOffset_def) 
  then show "TimeClip (60000 * k) = Some (60000 * k)"
    and "newDate (jssub (getTime (Some (60000 * k))) (Some istOffset)) = Some (60000 * k - istOffset)"
    by (simp_all add: TimeClip_def newDate_def jssub_def getTime_def istOffset_def)
qed

lemma nextIndex_correct:
  assumes "handledExactly p"
  shows "q < nextIndex p q" and "nextIndex p q \<le> q + 1500" and "shapeIndex p (nextIndex p q)"
    and "q < k \<Longrightarrow> shapeIndex p k \<Longrightarrow> nextIndex p q \<le> k"
proof -
  have "q < nextIndex p q \<and> nextIndex p q \<le> q + 1500 \<and> shapeIndex p (nextIndex p q)
        \<and> (q < k \<longrightarrow> shapeIndex p k \<longrightarrow> nextIndex p q \<le> k)"
  proof (cases p)
    case EveryMinute
    then show ?thesis by simp
  next
    case (EveryNMinutes n)
    with assms have "0 < n" "n dvd 60" by simp_all
    then have n: "0 < int n" "int n dvd 60"
      using int_dvd_int_iff[of n 60] by simp_all
    have idx: "nextIndex p q = int n * (q div int n + 1)"
      by (simp add: EveryNMinutes step_index[OF n])
    have m: "x mod 60 mod int n = x mod int n" for x :: int
      using n(2) by (rule mod_mod_cancel)
    have d: "q = int n * (q div int n) + q mod int n" by simp
    have "0 \<le> q mod int n" using n(1) by simp
    moreover have "int n \<le> 60" using n by (intro zdvd_imp_le) simp_all
    moreover have "int n * (q div int n + 1) = int n * (q div int n) + int n" by (simp add: algebra_simps)
    ultimately have up: "int n * (q div int n + 1) \<le> q + 1500" using d by linarith
    from step_next[OF n(1), of q] step_least[OF n(1), of q k] up show ?thesis
      unfolding idx by (simp add: EveryNMinutes m)
  next
    case (AtMinute m)
    with assms have m: "0 \<le> int m" "int m < 60" by simp_all
    have up: "nextIndex p q \<le> q + 1500"
      using index_bounds(3,4,7,8)[of q] m by (simp add: AtMinute)
    from at_minute_next[OF m, of q] at_minute_least[of q k "int m"] up show ?thesis
      by (simp add: AtMinute)
  next
    case (DailyAt m h)
    with assms have m: "0 \<le> int m" "int m < 60" "0 \<le> int h" "int h < 24" by simp_all
    have up: "nextIndex p q \<le> q + 1500"
      using index_bounds(5,6)[of q] m by (simp add: DailyAt)
    from daily_next[OF m, of q] daily_least[of q k "int m" "int h"] up show ?thesis
      by (simp add: DailyAt)
  qed
  then show "q < nextIndex p q" and "nextIndex p q \<le> q + 1500" and "shapeIndex p (nextIndex p q)"
    and "q < k \<Longrightarrow> shapeIndex p k \<Longrightarrow> nextIndex p q \<le> k"
    by simp_all
qed

lemma at_minute_result:
  assumes range: "\<bar>t0\<bar> \<le> 8000000000000000" and valid: "validate (hot_path_expression (AtMinute m))"
    and m: "m < 60"
  shows "calculateNextRunTime validate 0 (hot_path_expression (AtMinute m)) (Some t0)
           = Some (60000 * nextIndex (AtMinute m) ((t0 + istOffset) div 60000) - istOffset)"
proof -
  define u where "u = t0 + istOffset"
  define q where "q = u div 60000"
  define X where "X = 60000 * (60 * (q div 60) + int m)"
  let ?expr = "decimal m @ '' * * * *''"
  note dates = base_dates[OF range, folded u_def]
  note clip = back_to_utc[OF range, folded u_def, folded q_def]
  have parts: "split_space ?expr = [decimal m, ''*'', ''*'', ''*'', ''*'']"
    using split_space_word[OF decimal_no_space, of m "''* * * *''"] by (simp add: split_stars)
  have ne: "?expr \<noteq> ''* * * * *''"
  proof
    assume "?expr = ''* * * * *''"
    then have "split_space ?expr = split_space ''* * * * *''" by simp
    then have "decimal m = ''*''" unfolding parts split_stars by simp
    with decimal_not_star show False by blast
  qed
  have n1: "setMinutes3 0 (Some u) (Some (int m)) (Some 0) (Some 0) = Some X"
  proof -
    have "u - u mod msPerHour + int m * msPerMinute = X"
      unfolding floor_hour X_def q_def by (simp add: msPerMinute_def algebra_simps)
    moreover have "TimeClip X = Some X"
      unfolding X_def using index_bounds(3,4)[of q] m by (intro clip(1)) linarith+
    ultimately show ?thesis by (simp add: setMinutes3_utc)
  qed
  have cur: "getMinutes 0 (Some u) = Some (q mod 60)"
    by (simp add: getMinutes_def LocalTime_def minute_of_index(2) q_def)
  have n2: "setHours1 0 (Some X) (jsadd (getHours 0 (Some X)) (Some 1)) = Some (X + 3600000)"
  proof -
    have "X + 3600000 = 60000 * (60 * (q div 60) + int m + 60)" by (simp add: X_def)
    moreover have "TimeClip (60000 * (60 * (q div 60) + int m + 60)) = Some (60000 * (60 * (q div 60) + int m + 60))"
      using index_bounds(3,4)[of q] m by (intro clip(1)) linarith+
    ultimately show ?thesis by (simp add: setHours1_next_utc msPerHour_def)
  qed
  have idx: "60000 * nextIndex (AtMinute m) q = (if int m \<le> q mod 60 then X + 3600000 else X)"
    by (simp add: X_def)
  have "calculateNextRunTime validate 0 ?expr (Some t0)
          = newDate (jssub (getTime (if int m \<le> q mod 60 then Some (X + 3600000) else Some X))
                       (Some istOffset))"
    unfolding calculateNextRunTime_def Let_def parts element_five dates
    using valid ne decimal_not_star[of m] decimal_not_step[of m]
    by (simp add: parseIntOpt_def parseInt_decimal n1 n2 cur jsge_def)
  also have "\<dots> = newDate (jssub (getTime (Some (60000 * nextIndex (AtMinute m) q))) (Some istOffset))"
    unfolding idx by simp
  also have "\<dots> = Some (60000 * nextIndex (AtMinute m) q - istOffset)"
    using nextIndex_correct(1,2)[of "AtMinute m" q] m
    by (intro clip(2)) simp_all
  finally show ?thesis by (simp add: q_def u_def)
qed


lemma setMinutes1_index:
  "setMinutes1 0 (Some (60000 * k)) (Some mm) = TimeClip (60000 * (60 * (k div 60) + mm))"
proof -
  have "60000 * k - (60000 * k) mod msPerHour = 60000 * (60 * (k div 60))"
    using floor_hour[of "60000 * k"] by simp
  moreover have "(60000 * k) mod msPerMinute = 0" by (simp add: msPerMinute_def)
  ultimately have "60000 * k - (60000 * k) mod msPerHour + mm * msPerMinute + (60000 * k) mod msPerMinute
                     = 60000 * (60 * (k div 60) + mm)"
    by (simp add: msPerMinute_def algebra_simps)
  then show ?thesis by (simp only: setMinutes1_utc)
qed

lemma every_minute_result:
  assumes range: "\<bar>t0\<bar> \<le> 8000000000000000" and valid: "validate (hot_path_expression EveryMinute)"
  shows "calculateNextRunTime validate 0 (hot_path_expression EveryMinute) (Some t0)
           = Some (60000 * nextIndex EveryMinute ((t0 + istOffset) div 60000) - istOffset)"
proof -
  define u where "u = t0 + istOffset"
  define q where "q = u div 60000"
  define F where "F = 60000 * q"
  note dates = base_dates[OF range, folded u_def]
  note clip = back_to_utc[OF range, folded u_def, folded q_def]
  have n1: "setSeconds 0 (Some u) (Some 0) (Some 0) = Some F"
  proof -
    have "u - u mod msPerMinute = F" unfolding floor_minute F_def q_def by simp
    moreover have "TimeClip F = Some F" unfolding F_def by (intro clip(1)) simp_all
    ultimately show ?thesis by (simp add: setSeconds_utc)
  qed
  have cur: "getMinutes 0 (Some F) = Some (q mod 60)"
    by (simp add: getMinutes_def LocalTime_def minute_of_index(1) F_def)
  have n2: "setMinutes1 0 (Some F) (Some (q mod 60 + 1)) = Some (60000 * (q + 1))"
  proof -
    have "60 * (q div 60) + (q mod 60 + 1) = q + 1" by simp
    moreover have "TimeClip (60000 * (q + 1)) = Some (60000 * (q + 1))" by (intro clip(1)) simp_all
    ultimately show ?thesis unfolding F_def setMinutes1_index by simp
  qed
  have "calculateNextRunTime validate 0 ''* * * * *'' (Some t0)
          = newDate (jssub (getTime (Some (60000 * (q + 1)))) (Some istOffset))"
    unfolding calculateNextRunTime_def Let_def dates
    using valid by (simp add: n1 cur n2 jsadd_def)
  also have "\<dots> = Some (60000 * (q + 1) - istOffset)"
    by (intro clip(2)) simp_all
  finally show ?thesis by (simp add: q_def u_def)
qed

lemma daily_result:
  assumes range: "\<bar>t0\<bar> \<le> 8000000000000000" and valid: "validate (hot_path_expression (DailyAt m h))"
    and m: "m < 60" and h: "h < 24"
  shows "calculateNextRunTime validate 0 (hot_path_expression (DailyAt m h)) (Some t0)
           = Some (60000 * nextIndex (DailyAt m h) ((t0 + istOffset) div 60000) - istOffset)"
proof -
  define u where "u = t0 + istOffset"
  define q where "q = u div 60000"
  define x where "x = 1440 * (q div 1440) + 60 * int h + int m"
  define X where "X = 60000 * x"
  let ?expr = "decimal m @ '' '' @ decimal h @ '' * * *''"
  note dates = base_dates[OF range, folded u_def]
  note clip = back_to_utc[OF range, folded u_def, folded q_def]
  have "split_space (decimal m @ CHR '' '' # (decimal h @ CHR '' '' # ''* * *''))
          = decimal m # decimal h # split_space ''* * *''"
    by (simp only: split_space_word[OF decimal_no_space])
  then have parts: "split_space ?expr = [decimal m, decimal h, ''*'', ''*'', ''*'']"
    by (simp add: split_stars)
  have ne: "?expr \<noteq> ''* * * * *''"
  proof
    assume "?expr = ''* * * * *''"
    then have "split_space ?expr = split_space ''* * * * *''" by (rule arg_cong)
    then have "decimal m = ''*''" unfolding parts split_stars by simp
    with decimal_not_star show False by blast
  qed
  have xb: "q - 3000 \<le> x" "x \<le> q + 3000" "q - 3000 \<le> x + 1440" "x + 1440 \<le> q + 3000"
    using index_bounds(5,6)[of q] m h unfolding x_def by linarith+
  have n1: "setHours4 0 (Some u) (Some (int h)) (Some (int m)) (Some 0) (Some 0) = Some X"
  proof -
    have "u - u mod msPerDay + int h * msPerHour + int m * msPerMinute = X"
      unfolding floor_day X_def x_def q_def by (simp add: msPerMinute_def msPerHour_def algebra_simps)
    moreover have "TimeClip X = Some X"
      unfolding X_def using xb by (intro clip(1))
    ultimately show ?thesis by (simp add: setHours4_utc)
  qed
  have cmp: "jsge (getTime (Some u)) (getTime (Some X)) = (x \<le> q)"
    unfolding X_def q_def by (simp add: jsge_def getTime_def minute_index(2))
  have n2: "setDate_getDate_plus 0 (Some X) 1 = Some (X + 86400000)"
  proof -
    have "X + 1 * msPerDay = 60000 * (x + 1440)" by (simp add: X_def msPerDay_def)
    moreover have "TimeClip (60000 * (x + 1440)) = Some (60000 * (x + 1440))"
      using xb by (intro clip(1))
    moreover have "60000 * (x + 1440) = X + 86400000" by (simp add: X_def)
    ultimately show ?thesis by (simp add: setDate_getDate_plus_utc)
  qed
  have idx: "60000 * nextIndex (DailyAt m h) q = (if x \<le> q then X + 86400000 else X)"
    by (simp add: X_def x_def)
  have "calculateNextRunTime validate 0 ?expr (Some t0)
          = newDate (jssub (getTime (if x \<le> q then Some (X + 86400000) else Some X)) (Some istOffset))"
    unfolding calculateNextRunTime_def Let_def parts element_five dates
    using valid ne decimal_not_star[of m] decimal_not_star[of h] decimal_not_step[of m]
    by (simp add: parseIntOpt_def parseInt_decimal n1 n2 cmp)
  also have "\<dots> = newDate (jssub (getTime (Some (60000 * nextIndex (DailyAt m h) q))) (Some istOffset))"
    unfolding idx by simp
  also have "\<dots> = Some (60000 * nextIndex (DailyAt m h) q - istOffset)"
    using nextIndex_correct(1,2)[of "DailyAt m h" q] m h
    by (intro clip(2)) simp_all
  finally show ?thesis by (simp add: q_def u_def)
qed

lemma every_n_minutes_result:
  assumes range: "\<bar>t0\<bar> \<le> 8000000000000000" and valid: "validate (hot_path_expression (EveryNMinutes n))"
    and n: "0 < n" "n dvd 60"
  shows "calculateNextRunTime validate 0 (hot_path_expression (EveryNMinutes n)) (Some t0)
           = Some (60000 * nextIndex (EveryNMinutes n) ((t0 + istOffset) div 60000) - istOffset)"
proof -
  define u where "u = t0 + istOffset"
  define q where "q = u div 60000"
  define F where "F = 60000 * q"
  define Y where "Y = 60000 * (q + 60)"
  define ni where "ni = (q mod 60 div int n + 1) * int n"
  define R where "R = 60000 * (60 * (q div 60) + ni)"
  define field where "field = ''*/'' @ decimal n"
  define expr where "expr = field @ '' * * * *''"
  note dates = base_dates[OF range, folded u_def]
  note clip = back_to_utc[OF range, folded u_def, folded q_def]
  have e: "hot_path_expression (EveryNMinutes n) = expr" by (simp add: expr_def field_def)
  have npos: "0 < int n" using n(1) by simp
  have kidx: "nextIndex (EveryNMinutes n) q = 60 * (q div 60) + ni" by (simp add: ni_def)
  note kb = nextIndex_correct(1,2)[of "EveryNMinutes n" q, unfolded kidx]
  have nospace: "CHR '' '' \<notin> set field"
    using decimal_no_space[of n] by (simp add: field_def)
  have "split_space (field @ CHR '' '' # ''* * * *'') = field # split_space ''* * * *''"
    using nospace by (rule split_space_word)
  then have parts: "split_space expr = [field, ''*'', ''*'', ''*'', ''*'']"
    by (simp add: split_stars expr_def)
  have ne: "expr \<noteq> ''* * * * *''" by (simp add: expr_def field_def)
  have sw: "startsWith field ''*/''" by (simp add: startsWith_def field_def)
  have sub: "substring_from field 2 = decimal n" by (simp add: substring_from_def field_def)
  have n1: "setSeconds 0 (Some u) (Some 0) (Some 0) = Some F"
  proof -
    have "u - u mod msPerMinute = F" unfolding floor_minute F_def q_def by simp
    moreover have "TimeClip F = Some F" unfolding F_def by (intro clip(1)) simp_all
    ultimately show ?thesis by (simp add: setSeconds_utc)
  qed
  have cur: "getMinutes 0 (Some F) = Some (q mod 60)"
    by (simp add: getMinutes_def LocalTime_def minute_of_index(1) F_def)
  have nxt: "nextIntervalOf (Some (q mod 60)) (Some (int n)) = Some ni"
    using npos ceiling_step[OF npos, of "q mod 60"] by (simp add: nextIntervalOf_def ni_def)
  have clipR: "TimeClip R = Some R"
    unfolding R_def using kb n by (intro clip(1)) simp_all
  have direct: "setMinutes1 0 (Some F) (Some ni) = Some R"
    unfolding F_def setMinutes1_index R_def[symmetric] by (rule clipR)
  have n2: "setHours1 0 (Some F) (jsadd (getHours 0 (Some F)) (Some 1)) = Some Y"
  proof -
    have "F + msPerHour = Y" by (simp add: F_def Y_def msPerHour_def)
    moreover have "TimeClip Y = Some Y" unfolding Y_def by (intro clip(1)) simp_all
    ultimately show ?thesis by (simp add: setHours1_next_utc)
  qed
  have carry: "setMinutes1 0 (Some Y) (Some (ni - 60)) = Some R"
  proof -
    have "60 * ((q + 60) div 60) + (ni - 60) = 60 * (q div 60) + ni" by simp
    then show ?thesis unfolding Y_def setMinutes1_index using clipR by (simp add: R_def)
  qed
  have "calculateNextRunTime validate 0 expr (Some t0)
          = newDate (jssub (getTime (Some R)) (Some istOffset))"
    unfolding calculateNextRunTime_def Let_def parts element_five dates
    using valid[unfolded e] ne
    by (simp add: sw sub parseIntOpt_def parseInt_decimal n1 cur nxt jsge_def jssub_def n2 carry direct)
  also have "\<dots> = Some (R - istOffset)"
    unfolding R_def using kb n by (intro clip(2)) simp_all
  finally have "calculateNextRunTime validate 0 expr (Some t0)
                  = Some (60000 * nextIndex (EveryNMinutes n) q - istOffset)"
    unfolding R_def kidx[symmetric] .
  then show ?thesis unfolding e q_def u_def .
qed

text \<open>
  For the shapes \<open>* * * * *\<close>, \<open>M * * * *\<close>, \<open>M H * * *\<close> and \<open>*/N * * * *\<close> with \<open>N\<close> dividing
  60, in a process running in UTC and for a base within the range of \<open>Date\<close>, the function
  returns the first instant after the base whose civil time in Asia/Kolkata satisfies
  the expression.
\<close>
lemma satisfies_index:
  "satisfies p t \<longleftrightarrow>
     (t + istOffset) mod 60000 = 0 \<and> shapeIndex p ((t + istOffset) div 60000)"
proof -
  have "(t + istOffset) div msPerHour = (t + istOffset) div 60000 div 60"
    by (simp add: msPerHour_def zdiv_zmult2_eq[symmetric])
  then show ?thesis
    by (cases p) (auto simp: onTheMinute_def istMinute_def istHour_def msPerMinute_def)
qed

lemma handled_shapes_give_the_next_match:
  assumes range: "\<bar>t0\<bar> \<le> 8000000000000000" and valid: "validate (hot_path_expression p)"
    and shape: "handledExactly p"
  shows "\<exists>t1. calculateNextRunTime validate 0 (hot_path_expression p) (Some t0) = Some t1
           \<and> t0 < t1 \<and> satisfies p t1 \<and> (\<forall>t. t0 < t \<and> satisfies p t \<longrightarrow> t1 \<le> t)"
proof -
  define q where "q = (t0 + istOffset) div 60000"
  define t1 where "t1 = 60000 * nextIndex p q - istOffset"
  have res: "calculateNextRunTime validate 0 (hot_path_expression p) (Some t0) = Some t1"
  proof (cases p)
    case EveryMinute
    with every_minute_result[OF range] valid show ?thesis by (simp add: t1_def q_def)
  next
    case (EveryNMinutes n)
    with every_n_minutes_result[OF range, of validate n] valid shape show ?thesis
      by (simp add: t1_def q_def)
  next
    case (AtMinute m)
    with at_minute_result[OF range, of validate m] valid shape show ?thesis
      by (simp add: t1_def q_def)
  next
    case (DailyAt m h)
    with daily_result[OF range, of validate m h] valid shape show ?thesis
      by (simp add: t1_def q_def)
  qed
  note k = nextIndex_correct[OF shape, of q]
  have later: "t0 < t1"
    using k(1) minute_index(1)[of "t0 + istOffset" "nextIndex p q"] by (simp add: t1_def q_def)
  have sat: "satisfies p t1"
    using k(3) by (simp add: satisfies_index t1_def)
  have least: "t1 \<le> t" if t: "t0 < t \<and> satisfies p t" for t
  proof -
    define k' where "k' = (t + istOffset) div 60000"
    from t have on: "(t + istOffset) mod 60000 = 0" and sh: "shapeIndex p k'"
      by (simp_all add: satisfies_index k'_def)
    from on have L: "t + istOffset = 60000 * k'" unfolding k'_def by auto
    from t have "t0 + istOffset < 60000 * k'" unfolding L[symmetric] by simp
    then have "q < k'" unfolding q_def by (simp only: minute_index(1))
    from k(4)[OF this sh] have "60000 * nextIndex p q \<le> 60000 * k'" by simp
    with L show ?thesis by (simp add: t1_def)
  qed
  from res later sat least show ?thesis by blast
qed

text \<open>
  C1 fails for \<open>*/N\<close> when \<open>N\<close> does not divide 60. With \<open>*/7 * * * *\<close> and the base instant
  00:26 UTC (05:56 in Asia/Kolkata) the function returns 00:33 UTC, that is 06:03 in
  Asia/Kolkata, whose minute is not a multiple of 7, although 06:00 satisfies the
  expression and lies between the base and the result: the carry into the next hour keeps
  \<open>nextInterval - 60\<close> minutes where the field starts again at minute 0.
\<close>
theorem every_seven_minutes_wraps_past_the_hour:
  "cronPattern (hot_path_expression (EveryNMinutes 7))
   \<and> calculateNextRunTime cronPattern 0 (hot_path_expression (EveryNMinutes 7)) (Some 1560000)
       = Some 1980000
   \<and> \<not> satisfies (EveryNMinutes 7) 1980000
   \<and> satisfies (EveryNMinutes 7) 1800000 \<and> (1560000::int) < 1800000 \<and> (1800000::int) < 1980000"
  by code_simp
text \<open>With a step in the hour field the result is an Invalid Date, whatever the validator that
  accepts the expression, the time zone of the process and the base.\<close>
lemma hour_step_is_invalid_date:
  assumes "validate ''0 */2 * * *''"
  shows "calculateNextRunTime validate tz ''0 */2 * * *'' d = None"
proof -
  have parts: "split_space ''0 */2 * * *'' = [''0'', ''*/2'', ''*'', ''*'', ''*'']"
    by code_simp
  have el: "element [''0'', ''*/2'', ''*'', ''*'', ''*''] 0 = Some ''0''"
    "element [''0'', ''*/2'', ''*'', ''*'', ''*''] 1 = Some ''*/2''"
    "element [''0'', ''*/2'', ''*'', ''*'', ''*''] 2 = Some ''*''"
    "element [''0'', ''*/2'', ''*'', ''*'', ''*''] 3 = Some ''*''"
    by code_simp+
  have nan: "parseIntOpt (Some ''*/2'') = None"
    by code_simp
  have sw: "\<not> startsWith ''0'' ''*/''"
    by code_simp
  have inv: "setHours4 tz n None m s ms = None" for n m s ms
    by (cases n) (simp_all add: setHours4_def MakeTime_def MakeDate_def storeLocal_def Let_def)
  have "calculateNextRunTime validate tz ''0 */2 * * *'' d
          = newDate (jssub (getTime None) (Some istOffset))"
    unfolding calculateNextRunTime_def Let_def parts el
    using assms by (simp add: nan sw inv jsge_def getTime_def setDate_getDate_plus_def)
  then show ?thesis
    by (simp add: getTime_def jssub_def newDate_def)
qed

text \<open>
  C8 fails for an expression with a step in the hour field. \<open>0 */2 * * *\<close> is taken by the
  branch for a daily time, \<open>parseInt("*/2")\<close> is \<open>NaN\<close>, and the result is an Invalid Date
  for every base; applied to that result the function gives an Invalid Date again, and
  no comparison of the two holds.
\<close>
theorem step_in_hour_field_gives_invalid_date:
  "cronPattern ''0 */2 * * *''
   \<and> calculateNextRunTime cronPattern 0 ''0 */2 * * *'' (Some 0) = None
   \<and> \<not> jsgt (getTime (calculateNextRunTime cronPattern 0 ''0 */2 * * *''
                         (calculateNextRunTime cronPattern 0 ''0 */2 * * *'' (Some 0))))
              (getTime (calculateNextRunTime cronPattern 0 ''0 */2 * * *'' (Some 0)))"
  by code_simp
section \<open>Properties of the cache\<close>

lemma cacheDelete_cache: "cache (fst (cacheDelete c k)) = mapDelete (cache c) k"
proof (cases "mapHas (cache c) k")
  case True
  then show ?thesis by (simp add: cacheDelete_def Let_def)
next
  case False
  then have "k \<notin> fst ` set (cache c)"
    by (simp add: mapHas_def map_of_eq_None_iff)
  then have "AList.delete k (cache c) = cache c"
    by (simp add: delete_idem delete_id)
  with False show ?thesis by (simp add: cacheDelete_def Let_def mapDelete_def)
qed

lemma cacheDelete_counters:
  "hits (cstats (fst (cacheDelete c k))) = hits (cstats c)"
  "misses (cstats (fst (cacheDelete c k))) = misses (cstats c)"
  by (simp_all add: cacheDelete_def Let_def)

lemma fold_cacheDelete_cache:
  "cache (fold (\<lambda>ke st. fst (cacheDelete st (fst ke))) kes c)
     = fold (\<lambda>ke m. mapDelete m (fst ke)) kes (cache c)"
  by (induction kes arbitrary: c) (simp_all add: cacheDelete_cache)

lemma fold_cacheDelete_counters:
  "hits (cstats (fold (\<lambda>ke st. fst (cacheDelete st (fst ke))) kes c)) = hits (cstats c)
   \<and> misses (cstats (fold (\<lambda>ke st. fst (cacheDelete st (fst ke))) kes c)) = misses (cstats c)"
  by (induction kes arbitrary: c) (simp_all add: cacheDelete_counters)

lemma map_of_fold_mapDelete:
  "map_of (fold (\<lambda>ke m. mapDelete m (fst ke)) kes m) k
     = (if k \<in> fst ` set kes then None else map_of m k)"
proof (induction kes arbitrary: m)
  case Nil
  then show ?case by simp
next
  case (Cons ke kes)
  have "map_of (mapDelete m (fst ke)) k = (if k = fst ke then None else map_of m k)"
    by (simp add: mapDelete_def delete_conv')
  then show ?case
    by (auto simp: Cons.IH)
qed

lemma mapSet_new: "k \<notin> fst ` set m \<Longrightarrow> mapSet m k v = m @ [(k, v)]"
  by (induction m) (auto simp: mapSet_def)

lemma insort_key_before_last:
  "f x \<le> f y \<Longrightarrow> insort_key f x (zs @ [y]) = insort_key f x zs @ [y]"
  by (induction zs) simp_all

lemma sort_key_snoc_greatest:
  "\<forall>x \<in> set xs. f x \<le> f y \<Longrightarrow> sort_key f (xs @ [y]) = sort_key f xs @ [y]"
proof (induction xs)
  case Nil
  then show ?case by simp
next
  case (Cons x xs)
  then have "sort_key f (xs @ [y]) = sort_key f xs @ [y]" by simp
  with Cons.prems show ?case
    by (simp add: insort_key_before_last)
qed

text \<open>The entries after \<open>set\<close>, before the eviction.\<close>
lemma cacheSet_unfold:
  assumes "ttl \<noteq> 0"
  shows "\<exists>c3. cacheSet c k v (Some ttl) t0 = (if mapSize (cache c3) > 1000 then evictLRU c3 else c3)
            \<and> cache c3 = mapSet (cache c) k
                 \<lparr> value_entry = v, createdAt_entry = t0, lastAccessed = t0, expiresAt = Some (t0 + ttl) \<rparr>
            \<and> hits (cstats c3) = hits (cstats c) \<and> misses (cstats c3) = misses (cstats c)"
proof -
  let ?e = "\<lparr> value_entry = v, createdAt_entry = t0, lastAccessed = t0, expiresAt = Some (t0 + ttl) \<rparr>"
  let ?c1 = "if mapHas (ttlTimers c) k then c\<lparr> ttlTimers := mapDelete (ttlTimers c) k \<rparr> else c"
  let ?c2 = "?c1\<lparr> cache := mapSet (cache ?c1) k ?e,
                   cstats := (cstats ?c1)\<lparr> sets := sets (cstats ?c1) + 1 \<rparr> \<rparr>"
  let ?c3 = "?c2\<lparr> ttlTimers := mapSet (ttlTimers ?c2) k (t0 + timerDelay ttl) \<rparr>"
  have "cacheSet c k v (Some ttl) t0 = (if mapSize (cache ?c3) > 1000 then evictLRU ?c3 else ?c3)"
    using assms by (simp add: cacheSet_def Let_def)
  moreover have "cache ?c3 = mapSet (cache c) k ?e"
    "hits (cstats ?c3) = hits (cstats c)" "misses (cstats ?c3) = misses (cstats c)"
    by simp_all
  ultimately show ?thesis by blast
qed

lemma evictLRU_counters:
  "hits (cstats (evictLRU c)) = hits (cstats c) \<and> misses (cstats (evictLRU c)) = misses (cstats c)"
  by (simp add: evictLRU_def Let_def fold_cacheDelete_counters)

lemma evictLRU_lookup:
  "map_of (cache (evictLRU c)) k = None \<or> map_of (cache (evictLRU c)) k = map_of (cache c) k"
  by (simp add: evictLRU_def Let_def fold_cacheDelete_cache map_of_fold_mapDelete)

lemma evictLRU_keeps_newest:
  assumes new: "k \<notin> fst ` set m" and clock: "\<forall>ke \<in> set m. lastAccessed (snd ke) \<le> lastAccessed e"
    and c: "cache c = m @ [(k, e)]"
  shows "map_of (cache (evictLRU c)) k = Some e"
proof -
  let ?f = "\<lambda>ke :: string \<times> 'a entry. lastAccessed (snd ke)"
  have sorted: "sort_key ?f (cache c) = sort_key ?f m @ [(k, e)]"
    unfolding c using clock by (intro sort_key_snoc_greatest) simp
  have "take (length (sort_key ?f (cache c)) div 10) (sort_key ?f (cache c))
          = take (Suc (length m) div 10) (sort_key ?f m)"
    by (simp add: sorted)
  moreover have "k \<notin> fst ` set (take (Suc (length m) div 10) (sort_key ?f m))"
    using new set_take_subset[of "Suc (length m) div 10" "sort_key ?f m"] by auto
  ultimately have "map_of (cache (evictLRU c)) k = map_of (cache c) k"
    by (simp add: evictLRU_def Let_def fold_cacheDelete_cache map_of_fold_mapDelete)
  also have "\<dots> = Some e"
  proof -
    from new have "map_of m k = None" by (simp add: map_of_eq_None_iff)
    then show ?thesis unfolding c by (simp add: map_add_def)
  qed
  finally show ?thesis .
qed

lemma cacheGet_absent:
  "map_of (cache c) k = None \<Longrightarrow>
   cacheGet c k t = (None, c\<lparr> cstats := (cstats c)\<lparr> misses := misses (cstats c) + 1 \<rparr> \<rparr>)"
  by (simp add: cacheGet_def)

lemma cacheGet_expired:
  assumes "map_of (cache c) k = Some e" and "expired t e"
  shows "fst (cacheGet c k t) = None
         \<and> \<not> mapHas (cache (snd (cacheGet c k t))) k
         \<and> misses (cstats (snd (cacheGet c k t))) = misses (cstats c) + 1
         \<and> hits (cstats (snd (cacheGet c k t))) = hits (cstats c)"
  using assms
  by (simp add: cacheGet_def Let_def cacheDelete_cache cacheDelete_counters mapHas_def mapDelete_def
        delete_conv')

lemma cacheGet_fresh:
  assumes "map_of (cache c) k = Some e" and "\<not> expired t e"
  shows "cacheGet c k t =
           (Some (value_entry e),
            c\<lparr> cache := mapSet (cache c) k (e\<lparr> lastAccessed := t \<rparr>),
               cstats := (cstats c)\<lparr> hits := hits (cstats c) + 1 \<rparr> \<rparr>)"
  using assms by (simp add: cacheGet_def)

lemma length_mapSet_present: "k \<in> fst ` set m \<Longrightarrow> length (mapSet m k v) = length m"
  by (induction m) (auto simp: mapSet_def)

lemma cacheSet_lookup:
  assumes "ttl \<noteq> 0"
  shows "(map_of (cache (cacheSet c k v (Some ttl) t0)) k = None
          \<or> map_of (cache (cacheSet c k v (Some ttl) t0)) k
               = Some \<lparr> value_entry = v, createdAt_entry = t0, lastAccessed = t0,
                        expiresAt = Some (t0 + ttl) \<rparr>)
         \<and> hits (cstats (cacheSet c k v (Some ttl) t0)) = hits (cstats c)
         \<and> misses (cstats (cacheSet c k v (Some ttl) t0)) = misses (cstats c)"
proof -
  let ?e = "\<lparr> value_entry = v, createdAt_entry = t0, lastAccessed = t0, expiresAt = Some (t0 + ttl) \<rparr>"
  from cacheSet_unfold[OF assms, of c k v t0] obtain c3 where
    c3: "cacheSet c k v (Some ttl) t0 = (if mapSize (cache c3) > 1000 then evictLRU c3 else c3)"
      "cache c3 = mapSet (cache c) k ?e"
      "hits (cstats c3) = hits (cstats c)" "misses (cstats c3) = misses (cstats c)"
    by blast
  have here: "map_of (cache c3) k = Some ?e"
    by (simp add: c3(2) map_of_mapSet_same)
  show ?thesis
  proof (cases "mapSize (cache c3) > 1000")
    case True
    with c3 here evictLRU_lookup[of c3 k] evictLRU_counters[of c3] show ?thesis by auto
  next
    case False
    with c3 here show ?thesis by simp
  qed
qed

lemma cacheSet_keeps:
  assumes ttl: "ttl \<noteq> 0" and size: "length (cache c) \<le> 1000"
    and clock: "\<forall>ke \<in> set (cache c). lastAccessed (snd ke) \<le> t0"
  shows "map_of (cache (cacheSet c k v (Some ttl) t0)) k
               = Some \<lparr> value_entry = v, createdAt_entry = t0, lastAccessed = t0,
                        expiresAt = Some (t0 + ttl) \<rparr>"
proof -
  let ?e = "\<lparr> value_entry = v, createdAt_entry = t0, lastAccessed = t0, expiresAt = Some (t0 + ttl) \<rparr>"
  from cacheSet_unfold[OF ttl, of c k v t0] obtain c3 where
    c3: "cacheSet c k v (Some ttl) t0 = (if mapSize (cache c3) > 1000 then evictLRU c3 else c3)"
      "cache c3 = mapSet (cache c) k ?e"
    by blast
  have here: "map_of (cache c3) k = Some ?e"
    by (simp add: c3(2) map_of_mapSet_same)
  show ?thesis
  proof (cases "mapSize (cache c3) > 1000")
    case False
    with c3 here show ?thesis by simp
  next
    case True
    have new: "k \<notin> fst ` set (cache c)"
    proof
      assume "k \<in> fst ` set (cache c)"
      then have "length (mapSet (cache c) k ?e) = length (cache c)"
        by (rule length_mapSet_present)
      with True size c3(2) show False by (simp add: mapSize_def)
    qed
    then have app: "cache c3 = cache c @ [(k, ?e)]"
      by (simp add: c3(2) mapSet_new)
    have "map_of (cache (evictLRU c3)) k = Some ?e"
      using clock by (intro evictLRU_keeps_newest[OF new _ app]) simp
    with True c3 show ?thesis by simp
  qed
qed

text \<open>What the TTL timers do: a timer that fires removes the entry of its key and nothing
  else, and the timer that \<open>set\<close> arms for a key is the only one the key has.\<close>
lemma fold_timers_counters:
  "hits (cstats (fold (\<lambda>key st. ttlTimerFires st key) ks c)) = hits (cstats c)
   \<and> misses (cstats (fold (\<lambda>key st. ttlTimerFires st key) ks c)) = misses (cstats c)"
  by (induction ks arbitrary: c) (simp_all add: ttlTimerFires_def cacheDelete_counters)

lemma fold_timers_lookup:
  "map_of (cache (fold (\<lambda>key st. ttlTimerFires st key) ks c)) k
     = (if k \<in> set ks then None else map_of (cache c) k)"
proof (induction ks arbitrary: c)
  case Nil
  then show ?case by simp
next
  case (Cons a ks)
  have "map_of (cache (ttlTimerFires c a)) k = (if k = a then None else map_of (cache c) k)"
    by (simp add: ttlTimerFires_def cacheDelete_cache mapDelete_def delete_conv')
  then show ?case by (auto simp: Cons.IH)
qed

lemma cacheDelete_timers: "set (ttlTimers (fst (cacheDelete c k))) \<subseteq> set (ttlTimers c)"
  by (auto simp: cacheDelete_def Let_def mapDelete_def AList.delete_eq)

lemma fold_cacheDelete_timers:
  "set (ttlTimers (fold (\<lambda>ke st. fst (cacheDelete st (fst ke))) kes c)) \<subseteq> set (ttlTimers c)"
proof (induction kes arbitrary: c)
  case Nil
  then show ?case by simp
next
  case (Cons a kes)
  from Cons.IH[of "fst (cacheDelete c (fst a))"] cacheDelete_timers[of c "fst a"]
  show ?case by auto
qed

lemma evictLRU_timers: "set (ttlTimers (evictLRU c)) \<subseteq> set (ttlTimers c)"
  by (simp add: evictLRU_def Let_def fold_cacheDelete_timers)

lemma cacheSet_timer:
  assumes "ttl \<noteq> 0" and "kd \<in> set (ttlTimers (cacheSet c k v (Some ttl) t0))" and "fst kd = k"
  shows "snd kd = t0 + timerDelay ttl"
proof -
  let ?T = "if mapHas (ttlTimers c) k then mapDelete (ttlTimers c) k else ttlTimers c"
  let ?e = "\<lparr> value_entry = v, createdAt_entry = t0, lastAccessed = t0, expiresAt = Some (t0 + ttl) \<rparr>"
  let ?c1 = "if mapHas (ttlTimers c) k then c\<lparr> ttlTimers := mapDelete (ttlTimers c) k \<rparr> else c"
  let ?c2 = "?c1\<lparr> cache := mapSet (cache ?c1) k ?e,
                   cstats := (cstats ?c1)\<lparr> sets := sets (cstats ?c1) + 1 \<rparr> \<rparr>"
  let ?c3 = "?c2\<lparr> ttlTimers := mapSet (ttlTimers ?c2) k (t0 + timerDelay ttl) \<rparr>"
  have set: "cacheSet c k v (Some ttl) t0 = (if mapSize (cache ?c3) > 1000 then evictLRU ?c3 else ?c3)"
    using assms(1) by (simp add: cacheSet_def Let_def)
  have fresh: "k \<notin> fst ` set ?T"
    by (auto simp: mapHas_def map_of_eq_None_iff mapDelete_def AList.delete_eq)
  have "ttlTimers ?c3 = mapSet ?T k (t0 + timerDelay ttl)" by simp
  also have "\<dots> = ?T @ [(k, t0 + timerDelay ttl)]" using fresh by (rule mapSet_new)
  finally have T3: "ttlTimers ?c3 = ?T @ [(k, t0 + timerDelay ttl)]" .
  have "set (ttlTimers (cacheSet c k v (Some ttl) t0)) \<subseteq> set (ttlTimers ?c3)"
    unfolding set using evictLRU_timers[of ?c3] by (cases "mapSize (cache ?c3) > 1000") simp_all
  with assms(2) have "kd \<in> set (?T @ [(k, t0 + timerDelay ttl)])" unfolding T3[symmetric] by blast
  with fresh assms(3) show ?thesis by (cases kd) (auto simp: image_iff)
qed

text \<open>
  Let \<open>set(k, v, ttl)\<close> run at \<open>t0\<close> with a TTL between 1 and \<open>2^31 - 1\<close> milliseconds, the
  timers due by \<open>t1\<close> run, and then \<open>get(k)\<close> at \<open>t1\<close>. After the TTL has elapsed
  (\<open>t1 > t0 + ttl\<close>) the \<open>get\<close> returns \<open>null\<close>, leaves no entry for \<open>k\<close> and counts one
  miss. Before the expiry the timer of \<open>k\<close> is not due, and in a cache of at most 1000
  entries none of which was accessed after \<open>t0\<close> the \<open>get\<close> returns \<open>v\<close>, counts one hit
  and sets the entry's \<open>lastAccessed\<close> to \<open>t1\<close>.
\<close>
lemma get_after_set_with_timers:
  assumes ttl: "1 \<le> ttl" "ttl \<le> 2147483647" and expiry: "t0 + ttl \<noteq> 0"
  shows "(t0 + ttl < t1 \<longrightarrow>
            fst (cacheGet (runTimers (cacheSet c k v (Some ttl) t0) t1) k t1) = None
            \<and> \<not> mapHas (cache (snd (cacheGet (runTimers (cacheSet c k v (Some ttl) t0) t1) k t1))) k
            \<and> misses (cstats (snd (cacheGet (runTimers (cacheSet c k v (Some ttl) t0) t1) k t1)))
                = misses (cstats c) + 1
            \<and> hits (cstats (snd (cacheGet (runTimers (cacheSet c k v (Some ttl) t0) t1) k t1)))
                = hits (cstats c))
       \<and> (t1 < t0 + ttl \<and> length (cache c) \<le> 1000
            \<and> (\<forall>ke \<in> set (cache c). lastAccessed (snd ke) \<le> t0) \<longrightarrow>
            k \<notin> set (dueTimers (cacheSet c k v (Some ttl) t0) t1)
            \<and> fst (cacheGet (runTimers (cacheSet c k v (Some ttl) t0) t1) k t1) = Some v
            \<and> map_of (cache (snd (cacheGet (runTimers (cacheSet c k v (Some ttl) t0) t1) k t1))) k
                 = Some \<lparr> value_entry = v, createdAt_entry = t0, lastAccessed = t1,
                          expiresAt = Some (t0 + ttl) \<rparr>
            \<and> hits (cstats (snd (cacheGet (runTimers (cacheSet c k v (Some ttl) t0) t1) k t1)))
                = hits (cstats c) + 1
            \<and> misses (cstats (snd (cacheGet (runTimers (cacheSet c k v (Some ttl) t0) t1) k t1)))
                = misses (cstats c))"
proof -
  let ?e = "\<lparr> value_entry = v, createdAt_entry = t0, lastAccessed = t0, expiresAt = Some (t0 + ttl) \<rparr>"
  let ?c1 = "cacheSet c k v (Some ttl) t0"
  let ?c2 = "runTimers ?c1 t1"
  from ttl have nz: "ttl \<noteq> 0" and delay: "timerDelay ttl = ttl" by (simp_all add: timerDelay_def)
  note look = cacheSet_lookup[OF nz, of c k v t0]
  have counters: "hits (cstats ?c2) = hits (cstats c)" "misses (cstats ?c2) = misses (cstats c)"
    using look fold_timers_counters[of "dueTimers ?c1 t1" ?c1] by (simp_all add: runTimers_def)
  have look2: "map_of (cache ?c2) k = None \<or> map_of (cache ?c2) k = Some ?e"
    using look by (auto simp: runTimers_def fold_timers_lookup)
  have p1: "fst (cacheGet ?c2 k t1) = None
            \<and> \<not> mapHas (cache (snd (cacheGet ?c2 k t1))) k
            \<and> misses (cstats (snd (cacheGet ?c2 k t1))) = misses (cstats c) + 1
            \<and> hits (cstats (snd (cacheGet ?c2 k t1))) = hits (cstats c)"
    if late: "t0 + ttl < t1"
  proof (cases "map_of (cache ?c2) k")
    case None
    with counters show ?thesis by (simp add: cacheGet_absent mapHas_def)
  next
    case (Some e)
    with look2 have e: "e = ?e" by auto
    with late expiry have "expired t1 e" by (simp add: expired_def)
    from cacheGet_expired[OF Some this] counters show ?thesis by simp
  qed
  have p2: "k \<notin> set (dueTimers ?c1 t1)
            \<and> fst (cacheGet ?c2 k t1) = Some v
            \<and> map_of (cache (snd (cacheGet ?c2 k t1))) k
                 = Some \<lparr> value_entry = v, createdAt_entry = t0, lastAccessed = t1,
                          expiresAt = Some (t0 + ttl) \<rparr>
            \<and> hits (cstats (snd (cacheGet ?c2 k t1))) = hits (cstats c) + 1
            \<and> misses (cstats (snd (cacheGet ?c2 k t1))) = misses (cstats c)"
    if h: "t1 < t0 + ttl \<and> length (cache c) \<le> 1000
            \<and> (\<forall>ke \<in> set (cache c). lastAccessed (snd ke) \<le> t0)"
  proof -
    have notdue: "k \<notin> set (dueTimers ?c1 t1)"
    proof
      assume "k \<in> set (dueTimers ?c1 t1)"
      then obtain kd where kd: "kd \<in> set (ttlTimers ?c1)" "snd kd \<le> t1" "fst kd = k"
        by (auto simp: dueTimers_def)
      from cacheSet_timer[OF nz kd(1) kd(3)] delay kd(2) h show False by simp
    qed
    from h have "map_of (cache ?c1) k = Some ?e"
      by (intro cacheSet_keeps[OF nz]) simp_all
    with notdue have kept: "map_of (cache ?c2) k = Some ?e"
      by (simp add: runTimers_def fold_timers_lookup)
    from h have "\<not> expired t1 ?e" by (simp add: expired_def)
    from cacheGet_fresh[OF kept this] counters notdue show ?thesis
      by (simp add: map_of_mapSet_same)
  qed
  from p1 p2 show ?thesis by blast
qed

text \<open>
  C10 fails for a TTL above \<open>2^31 - 1\<close> milliseconds. \<open>set\<close> with a TTL of 30 days at
  \<open>t0 = 1000\<close> stores the expiry 2592001000 and arms a timer that Node.js runs after one
  millisecond; once that timer has run, a \<open>get\<close> at 2000, long before the expiry, finds no
  entry: it returns \<open>null\<close> and counts a miss, no hit. With a TTL of ten minutes the same
  \<open>get\<close> returns the value.
\<close>
theorem long_ttl_entry_is_lost_before_expiry:
  "map_of (ttlTimers (cacheSet (newCache :: nat cacheService) ''job:1'' 7 (Some 2592000000) 1000)) ''job:1''
     = Some 1001
   \<and> map_option expiresAt
        (map_of (cache (cacheSet (newCache :: nat cacheService) ''job:1'' 7 (Some 2592000000) 1000)) ''job:1'')
     = Some (Some 2592001000)
   \<and> dueTimers (cacheSet (newCache :: nat cacheService) ''job:1'' 7 (Some 2592000000) 1000) 2000 = [''job:1'']
   \<and> fst (cacheGet (runTimers (cacheSet (newCache :: nat cacheService) ''job:1'' 7 (Some 2592000000) 1000) 2000)
             ''job:1'' 2000) = None
   \<and> misses (cstats (snd (cacheGet (runTimers (cacheSet (newCache :: nat cacheService) ''job:1'' 7
                                                  (Some 2592000000) 1000) 2000) ''job:1'' 2000))) = 1
   \<and> hits (cstats (snd (cacheGet (runTimers (cacheSet (newCache :: nat cacheService) ''job:1'' 7
                                                  (Some 2592000000) 1000) 2000) ''job:1'' 2000))) = 0
   \<and> fst (cacheGet (runTimers (cacheSet (newCache :: nat cacheService) ''job:1'' 7 (Some 600000) 1000) 2000)
             ''job:1'' 2000) = Some 7"
  by code_simp

end
